theory Spec2Isabelle
  imports Main "HOL-Library.Sublist" "HOL-Library.Product_Lexorder"
begin

section \<open>Python values, strings and errors\<close>

text \<open>
  A Python \<open>str\<close> is modelled as a \<^typ>\<open>string\<close>, one \<^typ>\<open>char\<close> per code point
  (code points 0 to 255). On that range \<open>\d\<close> is the ten ASCII digits and
  \<open>str.strip()\<close> removes the characters for which \<open>str.isspace\<close> holds.
  The fields of a named tuple are dynamically typed, so their run-time type is kept.
\<close>

datatype pyval = PyInt int | PyStr string

datatype error =
    HttpError nat
  | TypeError
  | ValueError
  | IndexError
  | UnicodeDecodeError
  | RecursionError

definition is_digit :: "char \<Rightarrow> bool" where
  "is_digit c = (c \<in> set ''0123456789'')"

definition is_space :: "char \<Rightarrow> bool" where
  "is_space c = (c \<in> set [CHR 0x09, CHR 0x0A, CHR 0x0B, CHR 0x0C, CHR 0x0D,
                           CHR 0x1C, CHR 0x1D, CHR 0x1E, CHR 0x1F, CHR 0x20,
                           CHR 0x85, CHR 0xA0])"

text \<open>\<open>s.strip()\<close>\<close>

definition strip :: "string \<Rightarrow> string" where
  "strip s = rev (dropWhile is_space (rev (dropWhile is_space s)))"

text \<open>
  \<open>s.split(sep, maxsplit)\<close> for a non-empty separator: the string is cut at the
  non-overlapping occurrences of \<open>sep\<close>, leftmost first, at most \<open>maxsplit\<close>
  times when \<open>maxsplit\<close> is not negative. An empty separator raises \<open>ValueError\<close>.
  \<open>split_from\<close> carries the piece read so far.
\<close>

function split_from :: "string \<Rightarrow> int \<Rightarrow> string \<Rightarrow> string \<Rightarrow> string list" where
  "split_from sep maxsplit cur [] = [cur]"
| "split_from sep maxsplit cur (c # cs) =
     (if sep \<noteq> [] \<and> maxsplit \<noteq> 0 \<and> prefix sep (c # cs)
      then cur # split_from sep (maxsplit - 1) [] (drop (length sep) (c # cs))
      else split_from sep maxsplit (cur @ [c]) cs)"
  by pat_completeness auto
termination
  by (relation "measure (\<lambda>(sep, maxsplit, cur, s). length s)") auto

definition py_split :: "string \<Rightarrow> int \<Rightarrow> string \<Rightarrow> error + string list" where
  "py_split sep maxsplit s =
     (if sep = [] then Inl ValueError else Inr (split_from sep maxsplit [] s))"

text \<open>\<open>sep.join(xs)\<close>\<close>

fun py_join :: "string \<Rightarrow> string list \<Rightarrow> string" where
  "py_join sep [] = []"
| "py_join sep [x] = x"
| "py_join sep (x # y # ys) = x @ sep @ py_join sep (y # ys)"

section \<open>Regular expressions of the shape the source uses\<close>

text \<open>
  The pattern of \<open>get_subtitles\<close> is a sequence of literals and of greedy repetitions
  of a character class, each repetition a named group. \<open>Rep cls m name\<close> is
  \<open>(?P<name>cls{m,})\<close>. Matching is by backtracking as in Python's \<open>re\<close>: a repetition
  first takes as many characters as it can and gives them back one at a time until the
  rest of the pattern matches.
\<close>

datatype item = Lit string | Rep "char \<Rightarrow> bool" nat string

type_synonym groups = "(string \<times> string) list"

fun backtrack :: "(nat \<Rightarrow> 'a option) \<Rightarrow> nat \<Rightarrow> nat \<Rightarrow> 'a option" where
  "backtrack f lo 0 = (if lo = 0 then f 0 else None)"
| "backtrack f lo (Suc n) =
     (if Suc n < lo then None
      else case f (Suc n) of Some r \<Rightarrow> Some r | None \<Rightarrow> backtrack f lo n)"

primrec match_at :: "item list \<Rightarrow> string \<Rightarrow> groups option" where
  "match_at [] s = Some []"
| "match_at (i # is) s =
     (case i of
        Lit l \<Rightarrow> if prefix l s then match_at is (drop (length l) s) else None
      | Rep cls m name \<Rightarrow>
          backtrack (\<lambda>n. map_option ((#) (name, take n s)) (match_at is (drop n s)))
            m (length (takeWhile cls s)))"

text \<open>\<open>re.search\<close>: the match at the leftmost position where the pattern matches.\<close>

fun re_search :: "item list \<Rightarrow> string \<Rightarrow> groups option" where
  "re_search p [] = match_at p []"
| "re_search p (c # cs) =
     (case match_at p (c # cs) of Some g \<Rightarrow> Some g | None \<Rightarrow> re_search p cs)"

section \<open>Subtitle lines\<close>

text \<open>\<open>SubtitleMsg = namedtuple("SubtitleLine", "idx, start, end, text")\<close>\<close>

record SubtitleMsg =
  idx :: pyval
  start :: pyval
  end' :: pyval
  text' :: pyval

text \<open>
  \<open>SubtitleMsg(**d)\<close>: every field needs its keyword and no other keyword is accepted;
  the values of a \<open>groupdict\<close> are strings.
\<close>

definition SubtitleMsg_kw :: "groups \<Rightarrow> error + SubtitleMsg" where
  "SubtitleMsg_kw d =
     (case (map_of d ''idx'', map_of d ''start'', map_of d ''end'', map_of d ''text'') of
        (Some i, Some s, Some e, Some t) \<Rightarrow>
          if list_all (\<lambda>k. k \<in> set [''idx'', ''start'', ''end'', ''text'']) (map fst d)
          then Inr \<lparr>idx = PyStr i, start = PyStr s, end' = PyStr e, text' = PyStr t\<rparr>
          else Inl TypeError
      | _ \<Rightarrow> Inl TypeError)"

text \<open>
  \<open>(?P<idx>\d+)\n(?P<start>[\d+|:|,]+) --> (?P<end>[\d+|:|,]+)\n(?P<text>.*)\<close>
\<close>

definition timing_class :: "char \<Rightarrow> bool" where
  "timing_class c = (is_digit c \<or> c \<in> set ''+|:,'')"

definition not_newline :: "char \<Rightarrow> bool" where
  "not_newline c = (c \<noteq> CHR 0x0A)"

definition pattern :: "item list" where
  "pattern =
     [Rep is_digit 1 ''idx'', Lit [CHR 0x0A],
      Rep timing_class 1 ''start'', Lit '' --> '',
      Rep timing_class 1 ''end'', Lit [CHR 0x0A],
      Rep not_newline 0 ''text'']"

text \<open>
  The loop of \<open>get_subtitles\<close> over the pieces of \<open>subtitle.split("\n\n")\<close>, with
  \<open>result\<close> as accumulator.
\<close>

fun parse_loop :: "string list \<Rightarrow> SubtitleMsg list \<Rightarrow> error + SubtitleMsg list" where
  "parse_loop [] result = Inr result"
| "parse_loop (line # rest) result =
     (let line = strip line in
      if line = [] then parse_loop rest result
      else case re_search pattern line of
             None \<Rightarrow> parse_loop rest result
           | Some g \<Rightarrow>
               (case SubtitleMsg_kw g of
                  Inl e \<Rightarrow> Inl e
                | Inr m \<Rightarrow> parse_loop rest (result @ [m])))"

definition parse :: "string \<Rightarrow> error + SubtitleMsg list" where
  "parse subtitle =
     (case py_split [CHR 0x0A, CHR 0x0A] (- 1) subtitle of
        Inl e \<Rightarrow> Inl e
      | Inr blocks \<Rightarrow> parse_loop blocks [])"

text \<open>
  The data model's timecode form \<open>HH:MM:SS,mmm\<close>, used to tell which captured fields
  are timecodes; the source never tests it.
\<close>

definition hh_mm_ss_mmm :: "string \<Rightarrow> bool" where
  "hh_mm_ss_mmm s =
     (case s of
        [h1, h2, c1, m1, m2, c2, s1, s2, c3, f1, f2, f3] \<Rightarrow>
          list_all is_digit [h1, h2, m1, m2, s1, s2, f1, f2, f3]
          \<and> c1 = CHR '':'' \<and> c2 = CHR '':'' \<and> c3 = CHR '',''
      | _ \<Rightarrow> False)"



text \<open>
  A block as the payload format writes it: an index line, a timing line
  \<open>start --> end\<close> and text lines, one per line. A text line is a non-empty line
  with at least one character that is not white space.
\<close>

definition text_line :: "string \<Rightarrow> bool" where
  "text_line t = (t \<noteq> [] \<and> list_all not_newline t \<and> \<not> list_all is_space t)"

definition srt_block :: "string \<Rightarrow> string \<Rightarrow> string \<Rightarrow> string list \<Rightarrow> string" where
  "srt_block i s e ts = py_join [CHR 0x0A] (i # (s @ '' --> '' @ e) # ts)"

text \<open>No two adjacent line breaks: such a string is a single piece of the split.\<close>

fun nn_free :: "string \<Rightarrow> bool" where
  "nn_free (a # b # cs) = (\<not> (a = CHR 0x0A \<and> b = CHR 0x0A) \<and> nn_free (b # cs))"
| "nn_free cs = True"





section \<open>Timestamps\<close>

text \<open>
  A timestamp is a UTC calendar time to the second: year, month, day, hour, minute,
  second. Timestamps are compared field by field from the year down, which is the
  order in time. The upload times the interface reports and the times written into
  file names carry no fraction of a second.
\<close>

type_synonym timestamp = "nat \<times> nat \<times> nat \<times> nat \<times> nat \<times> nat"

fun str_nat :: "nat \<Rightarrow> string" where
  "str_nat n =
     (if n < 10 then [''0123456789'' ! n]
      else str_nat (n div 10) @ [''0123456789'' ! (n mod 10)])"

declare str_nat.simps [simp del]

definition zfill :: "nat \<Rightarrow> string \<Rightarrow> string" where
  "zfill w s = replicate (w - length s) (CHR ''0'') @ s"

text \<open>
  \<open>t.strftime(fmt)\<close> for the directives the source uses: \<open>%Y\<close> is the year on four
  digits, \<open>%m %d %H %M %S\<close> are on two digits, any other character is copied.
\<close>

definition directive :: "char \<Rightarrow> timestamp \<Rightarrow> string" where
  "directive d t =
     (case t of (year, month, day, hour, minute, second) \<Rightarrow>
        if d = CHR ''Y'' then zfill 4 (str_nat year)
        else if d = CHR ''m'' then zfill 2 (str_nat month)
        else if d = CHR ''d'' then zfill 2 (str_nat day)
        else if d = CHR ''H'' then zfill 2 (str_nat hour)
        else if d = CHR ''M'' then zfill 2 (str_nat minute)
        else if d = CHR ''S'' then zfill 2 (str_nat second)
        else [CHR ''%'', d])"

fun strftime :: "string \<Rightarrow> timestamp \<Rightarrow> string" where
  "strftime (c # d # fmt) t =
     (if c = CHR ''%'' then directive d t @ strftime fmt t else c # strftime (d # fmt) t)"
| "strftime fmt t = fmt"

text \<open>
  \<open>pd.to_datetime(date, format=fmt, utc=True)\<close> belongs to the pandas library, so the
  scan below takes it as a parameter (format first, then the string) and its
  properties are proved for every parser. \<open>to_datetime\<close> is the parser used to evaluate runs: it reads the
  fixed-width form that \<open>strftime\<close> writes for the same format (four digits for
  \<open>%Y\<close>, two for the other directives), requires the whole string to be consumed and
  the fields to form a calendar time in the range of a pandas timestamp, and raises
  \<open>ValueError\<close> otherwise. It is stricter than pandas, which also reads fields of
  fewer digits and a second of 60 or 61; the two agree on the strings the parser is
  evaluated on below: dates in the fixed-width form, a date with day 30 in February
  and a name with no digits, the last two refused by both.
\<close>

fun read_digits :: "nat \<Rightarrow> string \<Rightarrow> (nat \<times> string) option" where
  "read_digits 0 s = Some (0, s)"
| "read_digits (Suc n) [] = None"
| "read_digits (Suc n) (c # cs) =
     (if is_digit c
      then map_option (\<lambda>(v, rest). ((of_char c - 48) * 10 ^ n + v, rest)) (read_digits n cs)
      else None)"

fun strptime :: "string \<Rightarrow> string \<Rightarrow> (char \<times> nat) list option" where
  "strptime (c # d # fmt) s =
     (if c = CHR ''%''
      then (case read_digits (if d = CHR ''Y'' then 4 else 2) s of
              None \<Rightarrow> None
            | Some (v, rest) \<Rightarrow> map_option ((#) (d, v)) (strptime fmt rest))
      else (case s of
              [] \<Rightarrow> None
            | x # xs \<Rightarrow> if x = c then strptime (d # fmt) xs else None))"
| "strptime fmt s = (if s = fmt then Some [] else None)"

definition days_in_month :: "nat \<Rightarrow> nat \<Rightarrow> nat" where
  "days_in_month year month =
     (if month = 2
      then (if year mod 4 = 0 \<and> (year mod 100 \<noteq> 0 \<or> year mod 400 = 0) then 29 else 28)
      else if month \<in> {4, 6, 9, 11} then 30 else 31)"

definition valid_timestamp :: "timestamp \<Rightarrow> bool" where
  "valid_timestamp t =
     (case t of (year, month, day, hour, minute, second) \<Rightarrow>
        1 \<le> month \<and> month \<le> 12 \<and> 1 \<le> day \<and> day \<le> days_in_month year month
        \<and> hour < 24 \<and> minute < 60 \<and> second < 60
        \<and> (1677, 9, 21, 0, 12, 44) \<le> t \<and> t \<le> (2262, 4, 11, 23, 47, 16))"

definition field :: "(char \<times> nat) list \<Rightarrow> char \<Rightarrow> nat \<Rightarrow> nat" where
  "field fs d dflt = (case map_of fs d of None \<Rightarrow> dflt | Some v \<Rightarrow> v)"

definition to_datetime :: "string \<Rightarrow> string \<Rightarrow> error + timestamp" where
  "to_datetime fmt date =
     (case strptime fmt date of
        None \<Rightarrow> Inl ValueError
      | Some fs \<Rightarrow>
          (let t = (field fs (CHR ''Y'') 1900, field fs (CHR ''m'') 1, field fs (CHR ''d'') 1,
                    field fs (CHR ''H'') 0, field fs (CHR ''M'') 0, field fs (CHR ''S'') 0)
           in if valid_timestamp t then Inr t else Inl ValueError))"

section \<open>The checkpoint scan\<close>

definition DIR_NAME :: string where
  "DIR_NAME = ''by_title''"

text \<open>
  \<open>glob.glob(f"{self.DIR_NAME}/*.csv")\<close> over the names in the directory: the names
  that end in \<open>.csv\<close> and do not begin with a dot, each behind the directory name, in
  the order the directory lists them.
\<close>

definition fnmatch_csv :: "string \<Rightarrow> bool" where
  "fnmatch_csv name = (suffix ''.csv'' name \<and> \<not> prefix ''.'' name)"

definition glob_csv :: "string list \<Rightarrow> string list" where
  "glob_csv names = map (\<lambda>name. DIR_NAME @ ''/'' @ name) (filter fnmatch_csv names)"

text \<open>\<open>xs[i]\<close>\<close>

definition py_index :: "'a list \<Rightarrow> nat \<Rightarrow> error + 'a" where
  "py_index xs i = (if i < length xs then Inr (xs ! i) else Inl IndexError)"

text \<open>
  \<open>file_name = one_file.split("/", 1)[1]\<close> and
  \<open>date = "_".join(file_name.split("_", 2)[:2])\<close>
\<close>

definition date_of_file :: "string \<Rightarrow> error + string" where
  "date_of_file one_file =
     (case py_split ''/'' 1 one_file of
        Inl e \<Rightarrow> Inl e
      | Inr parts \<Rightarrow>
          (case py_index parts 1 of
             Inl e \<Rightarrow> Inl e
           | Inr file_name \<Rightarrow>
               (case py_split ''_'' 2 file_name of
                  Inl e \<Rightarrow> Inl e
                | Inr pieces \<Rightarrow> Inr (py_join ''_'' (take 2 pieces)))))"

fun scan_loop ::
  "(string \<Rightarrow> string \<Rightarrow> error + timestamp) \<Rightarrow> string list \<Rightarrow> timestamp list
     \<Rightarrow> error + timestamp list"
where
  "scan_loop pd_to_datetime [] dates = Inr dates"
| "scan_loop pd_to_datetime (one_file # rest) dates =
     (case date_of_file one_file of
        Inl e \<Rightarrow> Inl e
      | Inr date \<Rightarrow>
          (case pd_to_datetime ''%Y%m%d_%H%M%S'' date of
             Inl e \<Rightarrow> Inl e
           | Inr d \<Rightarrow> scan_loop pd_to_datetime rest (dates @ [d])))"

text \<open>The dictionary \<open>{"last": max(dates), "oldest": min(dates)}\<close>\<close>

record extreme =
  last' :: timestamp
  oldest :: timestamp

definition get_extreme_video_date ::
  "(string \<Rightarrow> string \<Rightarrow> error + timestamp) \<Rightarrow> string list \<Rightarrow> error + extreme option"
where
  "get_extreme_video_date pd_to_datetime names =
     (case scan_loop pd_to_datetime (glob_csv names) [] of
        Inl e \<Rightarrow> Inl e
      | Inr [] \<Rightarrow> Inr None
      | Inr (d # ds) \<Rightarrow> Inr (Some \<lparr>last' = fold max ds d, oldest = fold min ds d\<rparr>))"

text \<open>The directory name without the path, as \<open>date_of_file\<close> reads it.\<close>

definition date_prefix :: "string \<Rightarrow> string" where
  "date_prefix name = py_join ''_'' (take 2 (split_from ''_'' 2 [] name))"

section \<open>The interface client\<close>

text \<open>
  The three requests the crawler sends, each answered by the response or by the error
  that \<open>execute()\<close> raises: \<open>search().list\<close> with the bounds \<open>publishedAfter\<close>,
  \<open>publishedBefore\<close> and the page token, \<open>captions().list\<close> with a video identifier,
  \<open>captions().download\<close> with a track identifier. The body of a download is a
  byte string, which is the UTF-8 encoding of a text or is not.
\<close>

record search_item =
  snippet_publishedAt :: timestamp
  id_videoId :: string
  snippet_title :: string

record search_response =
  items :: "search_item list"
  nextPageToken :: "string option"

record caption_item =
  id' :: string
  snippet_trackKind :: string

datatype body = Utf8 string | Not_utf8

record client =
  search_list :: "string option \<Rightarrow> string option \<Rightarrow> string option \<Rightarrow> error + search_response"
  captions_list :: "string \<Rightarrow> error + caption_item list"
  captions_download :: "string \<Rightarrow> error + body"

text \<open>\<open>subtitle.decode("utf-8")\<close>\<close>

definition decode :: "body \<Rightarrow> error + string" where
  "decode b = (case b of Utf8 s \<Rightarrow> Inr s | Not_utf8 \<Rightarrow> Inl UnicodeDecodeError)"

section \<open>Caption track and subtitles of one video\<close>

fun asr_loop :: "caption_item list \<Rightarrow> string option" where
  "asr_loop [] = None"
| "asr_loop (item # rest) =
     (if snippet_trackKind item = ''ASR'' then Some (id' item) else asr_loop rest)"

definition get_asr_caption_id :: "client \<Rightarrow> string \<Rightarrow> error + string option" where
  "get_asr_caption_id c video_id =
     (case captions_list c video_id of
        Inl e \<Rightarrow> Inl e
      | Inr response_items \<Rightarrow> Inr (asr_loop response_items))"

text \<open>
  The \<open>try\<close> block of \<open>get_subtitles\<close> holds the download, the decoding and the loop;
  the handler catches \<open>HttpError\<close> only, returns the empty list on status 403 and
  raises the error again otherwise.
\<close>

definition get_subtitles :: "client \<Rightarrow> string \<Rightarrow> error + SubtitleMsg list" where
  "get_subtitles c caption_id =
     (case (case captions_download c caption_id of
              Inl e \<Rightarrow> Inl e
            | Inr b \<Rightarrow> (case decode b of Inl e \<Rightarrow> Inl e | Inr subtitle \<Rightarrow> parse subtitle)) of
        Inl (HttpError status) \<Rightarrow> if status = 403 then Inr [] else Inl (HttpError status)
      | Inl e \<Rightarrow> Inl e
      | Inr result \<Rightarrow> Inr result)"

section \<open>The crawler\<close>

text \<open>
  \<open>Video = namedtuple("Video", "uploaded, video_id, title, sub_idx, sub_start, sub_end,
  sub_text")\<close>
\<close>

record Video =
  uploaded :: timestamp
  video_id :: string
  title :: string
  sub_idx :: pyval
  sub_start :: pyval
  sub_end :: pyval
  sub_text :: pyval

text \<open>
  A persisted file is the table \<open>pd_video_subs[["video_id", "title", "sub_start",
  "sub_text"]]\<close>, one row per subtitle line; how \<open>to_csv\<close> writes a row as text is left
  to pandas. The directory \<open>by_title\<close> is the list of its files, name and content.
  Writing a file replaces the file of that name or adds a new one.
\<close>

type_synonym csv = "(string \<times> string \<times> pyval \<times> pyval) list"

fun to_csv :: "string \<Rightarrow> csv \<Rightarrow> (string \<times> csv) list \<Rightarrow> (string \<times> csv) list" where
  "to_csv name content [] = [(name, content)]"
| "to_csv name content ((n, old) # files) =
     (if n = name then (name, content) # files else (n, old) # to_csv name content files)"

text \<open>
  What a run does to the world is kept as a list of events: the requests sent, each
  with its arguments, and the files written, each with its path.
\<close>

datatype event =
    Search_list "string option" "string option" "string option"
  | Captions_list string
  | Captions_download string
  | To_csv string

text \<open>
  The state of a run: the attributes of the \<open>VideoGetter\<close> object (the two mode
  flags and the two bounds, which start as the class constants), the directory and
  the events so far.
\<close>

record state =
  get_latest :: bool
  get_after_least :: bool
  GRAB_BEFORE :: "string option"
  GRAB_AFTER :: "string option"
  by_title :: "(string \<times> csv) list"
  trace :: "event list"

text \<open>
  An outcome is the error raised, if any, and the state reached. A subscript on
  \<open>None\<close> raises \<open>TypeError\<close>.
\<close>

type_synonym outcome = "error option \<times> state"

definition subscript :: "extreme option \<Rightarrow> (extreme \<Rightarrow> timestamp) \<Rightarrow> error + timestamp" where
  "subscript d key = (case d of None \<Rightarrow> Inl TypeError | Some x \<Rightarrow> Inr (key x))"

text \<open>Lines 80 to 83 of the source: \<open>if self.get_latest: ...\<close>\<close>

definition window_latest :: "(string \<Rightarrow> string \<Rightarrow> error + timestamp) \<Rightarrow> state \<Rightarrow> outcome" where
  "window_latest pd_to_datetime st =
     (if get_latest st then
        (case get_extreme_video_date pd_to_datetime (map fst (by_title st)) of
           Inl e \<Rightarrow> (Some e, st)
         | Inr d \<Rightarrow>
             (case subscript d last' of
                Inl e \<Rightarrow> (Some e, st)
              | Inr latest_video_date \<Rightarrow>
                  (None, st\<lparr>GRAB_AFTER := Some (strftime ''%Y-%m-%dT%H:%M:%SZ'' latest_video_date),
                             GRAB_BEFORE := None\<rparr>)))
      else (None, st))"

text \<open>Lines 86 to 89 of the source: \<open>if self.get_after_least: ...\<close>\<close>

definition window_oldest :: "(string \<Rightarrow> string \<Rightarrow> error + timestamp) \<Rightarrow> state \<Rightarrow> outcome" where
  "window_oldest pd_to_datetime st =
     (if get_after_least st then
        (case get_extreme_video_date pd_to_datetime (map fst (by_title st)) of
           Inl e \<Rightarrow> (Some e, st)
         | Inr d \<Rightarrow>
             (case subscript d oldest of
                Inl e \<Rightarrow> (Some e, st)
              | Inr oldest_video_date \<Rightarrow>
                  (None, st\<lparr>GRAB_AFTER := None,
                             GRAB_BEFORE := Some (strftime ''%Y-%m-%dT%H:%M:%SZ'' oldest_video_date)\<rparr>)))
      else (None, st))"

definition window :: "(string \<Rightarrow> string \<Rightarrow> error + timestamp) \<Rightarrow> state \<Rightarrow> outcome" where
  "window pd_to_datetime st =
     (case window_latest pd_to_datetime st of
        (Some e, st') \<Rightarrow> (Some e, st')
      | (None, st') \<Rightarrow> window_oldest pd_to_datetime st')"

text \<open>The body of the loop \<open>for item in response["items"]\<close>, lines 108 to 142.\<close>

definition video_rows :: "timestamp \<Rightarrow> string \<Rightarrow> string \<Rightarrow> SubtitleMsg list \<Rightarrow> Video list" where
  "video_rows uploaded_time vid ttl subtitles =
     map (\<lambda>subtitle_line.
            \<lparr>uploaded = uploaded_time, video_id = vid, title = ttl,
             sub_idx = idx subtitle_line, sub_start = start subtitle_line,
             sub_end = end' subtitle_line, sub_text = text' subtitle_line\<rparr>) subtitles"

definition columns :: "Video list \<Rightarrow> csv" where
  "columns video_subs = map (\<lambda>v. (video_id v, title v, sub_start v, sub_text v)) video_subs"

definition file_name :: "search_item \<Rightarrow> string" where
  "file_name item =
     strftime ''%Y%m%d_%H%M%S'' (snippet_publishedAt item) @ ''_'' @ id_videoId item @ ''.csv''"

definition process_item :: "client \<Rightarrow> search_item \<Rightarrow> state \<Rightarrow> outcome" where
  "process_item c item st =
     (let st1 = st\<lparr>trace := trace st @ [Captions_list (id_videoId item)]\<rparr> in
      case get_asr_caption_id c (id_videoId item) of
        Inl e \<Rightarrow> (Some e, st1)
      | Inr None \<Rightarrow> (None, st1)
      | Inr (Some asr_caption_id) \<Rightarrow>
          if asr_caption_id = [] then (None, st1)
          else
            (let st2 = st1\<lparr>trace := trace st1 @ [Captions_download asr_caption_id]\<rparr> in
             case get_subtitles c asr_caption_id of
               Inl e \<Rightarrow> (Some e, st2)
             | Inr subtitles \<Rightarrow>
                 (let video_subs = video_rows (snippet_publishedAt item) (id_videoId item)
                                     (snippet_title item) subtitles
                  in if video_subs = [] then (None, st2)
                     else (None, st2\<lparr>by_title := to_csv (file_name item) (columns video_subs)
                                                    (by_title st2),
                                       trace := trace st2
                                         @ [To_csv (DIR_NAME @ ''/'' @ file_name item)]\<rparr>))))"

fun process_items :: "client \<Rightarrow> search_item list \<Rightarrow> state \<Rightarrow> outcome" where
  "process_items c [] st = (None, st)"
| "process_items c (item # rest) st =
     (case process_item c item st of
        (Some e, st') \<Rightarrow> (Some e, st')
      | (None, st') \<Rightarrow> process_items c rest st')"

text \<open>
  \<open>_get_search_videos\<close> calls itself for the next page. Python bounds the depth of
  nested calls; \<open>depth\<close> is the number of calls still available, and a call made when
  none is left raises \<open>RecursionError\<close>. A missing or empty page token ends the run.
\<close>

fun get_search_videos ::
  "nat \<Rightarrow> (string \<Rightarrow> string \<Rightarrow> error + timestamp) \<Rightarrow> client \<Rightarrow> string option \<Rightarrow> state \<Rightarrow> outcome"
where
  "get_search_videos 0 pd_to_datetime c page_token st = (Some RecursionError, st)"
| "get_search_videos (Suc depth) pd_to_datetime c page_token st =
     (case window pd_to_datetime st of
        (Some e, st1) \<Rightarrow> (Some e, st1)
      | (None, st1) \<Rightarrow>
          (let st2 = st1\<lparr>trace := trace st1
                          @ [Search_list (GRAB_AFTER st1) (GRAB_BEFORE st1) page_token]\<rparr> in
           case search_list c (GRAB_AFTER st1) (GRAB_BEFORE st1) page_token of
             Inl e \<Rightarrow> (Some e, st2)
           | Inr response \<Rightarrow>
               (case process_items c (items response) st2 of
                  (Some e, st3) \<Rightarrow> (Some e, st3)
                | (None, st3) \<Rightarrow>
                    (case nextPageToken response of
                       None \<Rightarrow> (None, st3)
                     | Some next_page_token \<Rightarrow>
                         if next_page_token = [] then (None, st3)
                         else get_search_videos depth pd_to_datetime c
                                (Some next_page_token) st3))))"

text \<open>
  \<open>VideoGetter(client, get_after_least, get_latest)\<close>: the constructor stores the
  arguments, makes sure the directory exists and starts the crawl at the first page.
  \<open>files\<close> is the content of the directory at that moment (no file when the
  directory had to be created); \<open>initial_state\<close> is the object as constructed, its
  bounds the class constants.
\<close>

definition initial_state :: "bool \<Rightarrow> bool \<Rightarrow> (string \<times> csv) list \<Rightarrow> state" where
  "initial_state after_least latest files =
     \<lparr>get_latest = latest, get_after_least = after_least,
      GRAB_BEFORE = Some ''2018-10-20T00:00:00Z'', GRAB_AFTER = Some ''2018-01-01T00:00:00Z'',
      by_title = files, trace = []\<rparr>"

definition VideoGetter ::
  "nat \<Rightarrow> (string \<Rightarrow> string \<Rightarrow> error + timestamp) \<Rightarrow> client \<Rightarrow> bool \<Rightarrow> bool
     \<Rightarrow> (string \<times> csv) list \<Rightarrow> outcome"
where
  "VideoGetter depth pd_to_datetime c after_least latest files =
     get_search_videos depth pd_to_datetime c None (initial_state after_least latest files)"

section \<open>Notions used to state the properties of the crawler\<close>

text \<open>
  A video has a record when the resolver returns an identifier of an ASR track (a
  non-empty string: the source tests \<open>if not asr_caption_id\<close>) and \<open>get_subtitles\<close>
  returns at least one line. \<open>record_table\<close> is the table then written.
\<close>

definition has_record :: "client \<Rightarrow> search_item \<Rightarrow> bool" where
  "has_record c item =
     (case get_asr_caption_id c (id_videoId item) of
        Inr (Some cid) \<Rightarrow>
          cid \<noteq> [] \<and> (case get_subtitles c cid of Inr ls \<Rightarrow> ls \<noteq> [] | Inl e \<Rightarrow> False)
      | _ \<Rightarrow> False)"

definition record_table :: "client \<Rightarrow> search_item \<Rightarrow> csv" where
  "record_table c item =
     (case get_asr_caption_id c (id_videoId item) of
        Inr (Some cid) \<Rightarrow>
          (case get_subtitles c cid of
             Inr ls \<Rightarrow> columns (video_rows (snippet_publishedAt item) (id_videoId item)
                                   (snippet_title item) ls)
           | Inl e \<Rightarrow> [])
      | _ \<Rightarrow> [])"

text \<open>The events a run has added to those of the state it started from.\<close>

definition new_events :: "state \<Rightarrow> state \<Rightarrow> event list" where
  "new_events st st' = drop (length (trace st)) (trace st')"

fun is_to_csv :: "event \<Rightarrow> bool" where
  "is_to_csv (To_csv path) = True"
| "is_to_csv ev = False"

text \<open>The bounds of the page requests among some events, in order.\<close>

fun bounds :: "event list \<Rightarrow> (string option \<times> string option) list" where
  "bounds [] = []"
| "bounds (Search_list published_after published_before page_token # evs) =
     (published_after, published_before) # bounds evs"
| "bounds (ev # evs) = bounds evs"



section \<open>Example channels\<close>

text \<open>
  A channel of two pages. The first page lists the videos \<open>v1\<close> and \<open>v2\<close>, uploaded
  on 1 May 2018 and 1 April 2018, and names a next page \<open>P2\<close>; that page lists the
  video \<open>v3\<close>, uploaded on 1 March 2018. Every video has one ASR track, \<open>c_\<close> followed by the video
  identifier, and every track downloads as one subtitle block.
\<close>

definition ex_v1 :: search_item where
  "ex_v1 = \<lparr>snippet_publishedAt = (2018, 5, 1, 0, 0, 0), id_videoId = ''v1'',
            snippet_title = ''First''\<rparr>"

definition ex_v2 :: search_item where
  "ex_v2 = \<lparr>snippet_publishedAt = (2018, 4, 1, 0, 0, 0), id_videoId = ''v2'',
            snippet_title = ''Second''\<rparr>"

definition ex_v3 :: search_item where
  "ex_v3 = \<lparr>snippet_publishedAt = (2018, 3, 1, 0, 0, 0), id_videoId = ''v3'',
            snippet_title = ''Third''\<rparr>"

definition ex_search :: "string option \<Rightarrow> string option \<Rightarrow> string option \<Rightarrow> error + search_response" where
  "ex_search published_after published_before page_token =
     (if page_token = None
      then Inr \<lparr>items = [ex_v1, ex_v2], nextPageToken = Some ''P2''\<rparr>
      else Inr \<lparr>items = [ex_v3], nextPageToken = None\<rparr>)"

definition ex_captions_list :: "string \<Rightarrow> error + caption_item list" where
  "ex_captions_list vid =
     Inr [\<lparr>id' = ''h_'' @ vid, snippet_trackKind = ''standard''\<rparr>,
          \<lparr>id' = ''c_'' @ vid, snippet_trackKind = ''ASR''\<rparr>]"

definition ex_download :: "string \<Rightarrow> error + body" where
  "ex_download cid = Inr (Utf8 ''1\<newline>00:00:01,000 --> 00:00:02,000\<newline>Hello'')"

definition ex_client :: client where
  "ex_client =
     \<lparr>search_list = ex_search, captions_list = ex_captions_list, captions_download = ex_download\<rparr>"

text \<open>The same channel when listing the tracks of \<open>v1\<close> is forbidden.\<close>

definition forbidden_list :: "string \<Rightarrow> error + caption_item list" where
  "forbidden_list vid = (if vid = ''v1'' then Inl (HttpError 403) else ex_captions_list vid)"

definition forbidden_list_client :: client where
  "forbidden_list_client =
     \<lparr>search_list = ex_search, captions_list = forbidden_list, captions_download = ex_download\<rparr>"

text \<open>
  The same channel when downloading the track of \<open>v1\<close> is forbidden (status 403) and
  downloading the track of \<open>v2\<close> fails with status 500.
\<close>

definition failing_download :: "string \<Rightarrow> error + body" where
  "failing_download cid =
     (if cid = ''c_v1'' then Inl (HttpError 403)
      else if cid = ''c_v2'' then Inl (HttpError 500)
      else ex_download cid)"

definition failing_download_client :: client where
  "failing_download_client =
     \<lparr>search_list = ex_search, captions_list = ex_captions_list,
      captions_download = failing_download\<rparr>"

section \<open>Properties of the subtitle parser\<close>

subsection \<open>Matching\<close>


lemma backtrack_top:
  "lo \<le> hi \<Longrightarrow> f hi = Some r \<Longrightarrow> backtrack f lo hi = Some r"
  by (cases hi) auto



lemma SubtitleMsg_kw_groups:
  "SubtitleMsg_kw [(''idx'', i), (''start'', st), (''end'', e), (''text'', t)] =
     Inr \<lparr>idx = PyStr i, start = PyStr st, end' = PyStr e, text' = PyStr t\<rparr>"
  by (simp add: SubtitleMsg_kw_def)


lemma split_from_nn_free:
  "nn_free s \<Longrightarrow> split_from [CHR 0x0A, CHR 0x0A] m cur s = [cur @ s]"
  by (induction s arbitrary: cur rule: nn_free.induct) auto

lemma nn_free_line: "list_all not_newline t \<Longrightarrow> nn_free t"
  by (induction t rule: nn_free.induct) (auto simp: not_newline_def)

lemma nn_free_Cons_line:
  "list_all not_newline t \<Longrightarrow> t \<noteq> [] \<Longrightarrow> nn_free r \<Longrightarrow> r \<noteq> [] \<Longrightarrow> hd r \<noteq> CHR 0x0A
   \<Longrightarrow> nn_free (t @ CHR 0x0A # r)"
proof (induction t)
  case Nil
  then show ?case by simp
next
  case (Cons a t)
  show ?case
  proof (cases t)
    case Nil
    with Cons.prems show ?thesis by (cases r) (auto simp: not_newline_def)
  next
    case (Cons b t')
    with Cons.IH Cons.prems show ?thesis by (auto simp: not_newline_def)
  qed
qed

lemma py_join_lines:
  "ls \<noteq> [] \<Longrightarrow> list_all (\<lambda>t. t \<noteq> [] \<and> list_all not_newline t) ls \<Longrightarrow>
     nn_free (py_join [CHR 0x0A] ls) \<and> py_join [CHR 0x0A] ls \<noteq> [] \<and> hd (py_join [CHR 0x0A] ls) \<noteq> CHR 0x0A"
proof (induction "[CHR 0x0A]" ls rule: py_join.induct)
  case 1
  then show ?case by simp
next
  case (2 x)
  then show ?case by (cases x) (auto simp: nn_free_line not_newline_def)
next
  case (3 x y ys)
  then have ih: "nn_free (py_join [CHR 0x0A] (y # ys))" "py_join [CHR 0x0A] (y # ys) \<noteq> []"
    "hd (py_join [CHR 0x0A] (y # ys)) \<noteq> CHR 0x0A"
    by simp_all
  from 3 have x: "x \<noteq> []" "list_all not_newline x" by simp_all
  have "nn_free (x @ CHR 0x0A # py_join [CHR 0x0A] (y # ys))"
    using nn_free_Cons_line[OF x(2) x(1) ih(1) ih(2) ih(3)] .
  moreover have "hd x \<noteq> CHR 0x0A" using x by (cases x) (auto simp: not_newline_def)
  ultimately show ?case using x by simp
qed

lemma takeWhile_stop: "list_all P xs \<Longrightarrow> (r = [] \<or> \<not> P (hd r)) \<Longrightarrow> takeWhile P (xs @ r) = xs"
  by (induction xs) (cases r; auto)+

lemma match_at_Rep:
  assumes "list_all cls x" "r = [] \<or> \<not> cls (hd r)" "m \<le> length x" "match_at is r = Some g"
  shows "match_at (Rep cls m name # is) (x @ r) = Some ((name, x) # g)"
proof -
  have "takeWhile cls (x @ r) = x" using assms(1,2) by (rule takeWhile_stop)
  then show ?thesis using assms(3,4) by (simp add: backtrack_top)
qed

lemma match_at_Lit:
  "match_at is r = Some g \<Longrightarrow> match_at (Lit l # is) (l @ r) = Some g"
  by simp

lemma match_at_block:
  assumes "i \<noteq> []" "list_all is_digit i" "s \<noteq> []" "list_all timing_class s"
    "e \<noteq> []" "list_all timing_class e" "list_all not_newline t" "r = [] \<or> hd r = CHR 0x0A"
  shows "match_at pattern (i @ [CHR 0x0A] @ s @ '' --> '' @ e @ [CHR 0x0A] @ t @ r) =
           Some [(''idx'', i), (''start'', s), (''end'', e), (''text'', t)]"
proof -
  have nl: "\<not> is_digit (CHR 0x0A)" "\<not> timing_class (CHR 0x0A)" "\<not> timing_class CHR '' ''"
    by (simp_all add: is_digit_def timing_class_def)
  have r: "r = [] \<or> \<not> not_newline (hd r)"
    using assms(8) by (auto simp: not_newline_def)
  have m7: "match_at [Rep not_newline 0 ''text''] (t @ r) = Some [(''text'', t)]"
    by (rule match_at_Rep[OF assms(7) r]) simp_all
  have m6: "match_at [Lit [CHR 0x0A], Rep not_newline 0 ''text''] ([CHR 0x0A] @ t @ r)
              = Some [(''text'', t)]"
    by (rule match_at_Lit[OF m7])
  have m5: "match_at [Rep timing_class 1 ''end'', Lit [CHR 0x0A], Rep not_newline 0 ''text'']
              (e @ [CHR 0x0A] @ t @ r) = Some [(''end'', e), (''text'', t)]"
    using assms(5) by (intro match_at_Rep[OF assms(6) _ _ m6]) (simp_all add: nl Suc_le_eq)
  have m4: "match_at [Lit '' --> '', Rep timing_class 1 ''end'', Lit [CHR 0x0A],
                      Rep not_newline 0 ''text'']
              ('' --> '' @ e @ [CHR 0x0A] @ t @ r) = Some [(''end'', e), (''text'', t)]"
    by (rule match_at_Lit[OF m5])
  have m3: "match_at [Rep timing_class 1 ''start'', Lit '' --> '', Rep timing_class 1 ''end'',
                      Lit [CHR 0x0A], Rep not_newline 0 ''text'']
              (s @ '' --> '' @ e @ [CHR 0x0A] @ t @ r)
              = Some [(''start'', s), (''end'', e), (''text'', t)]"
    using assms(3) by (intro match_at_Rep[OF assms(4) _ _ m4]) (simp_all add: nl Suc_le_eq)
  have m2: "match_at [Lit [CHR 0x0A], Rep timing_class 1 ''start'', Lit '' --> '',
                      Rep timing_class 1 ''end'', Lit [CHR 0x0A], Rep not_newline 0 ''text'']
              ([CHR 0x0A] @ s @ '' --> '' @ e @ [CHR 0x0A] @ t @ r)
              = Some [(''start'', s), (''end'', e), (''text'', t)]"
    by (rule match_at_Lit[OF m3])
  show ?thesis
    unfolding pattern_def
    using assms(1) by (intro match_at_Rep[OF assms(2) _ _ m2]) (simp_all add: nl Suc_le_eq)
qed


lemma strip_keeps_head:
  assumes "p \<noteq> []" "\<not> is_space (hd p)" "\<not> list_all is_space j"
  shows "\<exists>j'. strip (p @ j) = p @ j' \<and> j' \<noteq> [] \<and> prefix j' j"
proof -
  have 1: "dropWhile is_space (p @ j) = p @ j"
    using assms(1,2) by (cases p) auto
  from assms(3) obtain x where x: "x \<in> set (rev j)" "\<not> is_space x"
    by (auto simp: list_all_iff)
  have 2: "dropWhile is_space (rev j @ rev p) = dropWhile is_space (rev j) @ rev p"
    using x by (rule dropWhile_append1)
  have 3: "dropWhile is_space (rev j) \<noteq> []"
    using x by (auto simp: dropWhile_eq_Nil_conv)
  have "rev j = takeWhile is_space (rev j) @ dropWhile is_space (rev j)" by simp
  then have "j = rev (dropWhile is_space (rev j)) @ rev (takeWhile is_space (rev j))"
    by (metis rev_append rev_rev_ident)
  then have 4: "prefix (rev (dropWhile is_space (rev j))) j"
    by (metis prefixI)
  show ?thesis
    using 1 2 3 4 by (simp add: strip_def)
qed

lemma re_search_at_start: "match_at p s = Some g \<Longrightarrow> re_search p s = Some g"
  by (cases s) auto

lemma py_join_Cons: "ts \<noteq> [] \<Longrightarrow> py_join sep (t # ts) = t @ sep @ py_join sep ts"
  by (cases ts) auto

lemma set_py_join: "t \<in> set ts \<Longrightarrow> set t \<subseteq> set (py_join sep ts)"
  by (induction sep ts rule: py_join.induct) auto

lemma list_all_imp: "(\<And>x. P x \<Longrightarrow> Q x) \<Longrightarrow> list_all P xs \<Longrightarrow> list_all Q xs"
  by (induction xs) auto

lemma digit_not_newline: "is_digit c \<Longrightarrow> not_newline c"
  by (auto simp: is_digit_def not_newline_def)

lemma digit_not_space: "is_digit c \<Longrightarrow> \<not> is_space c"
  by (auto simp: is_digit_def is_space_def)

lemma timing_not_newline: "timing_class c \<Longrightarrow> not_newline c"
  by (auto simp: timing_class_def is_digit_def not_newline_def)

subsection \<open>Well-formed blocks\<close>









lemma text_line_parts:
  "text_line t \<Longrightarrow> t \<noteq> [] \<and> list_all not_newline t \<and> \<not> list_all is_space t"
  by (simp add: text_line_def)













subsection \<open>Claims\<close>

text \<open>
  C8 (as amended). For the single block
  \<open>"1\n00:00:01,000 --> 00:00:02,000\nHello world"\<close> the parser returns exactly one
  subtitle line; its start is \<open>"00:00:01,000"\<close>, its end \<open>"00:00:02,000"\<close>, its text
  \<open>"Hello world"\<close>, and its index is the captured string \<open>"1"\<close>: the groups of the
  match are passed on as they are and the index is never converted to an integer.
\<close>

theorem parse_single_block:
  "parse ''1\<newline>00:00:01,000 --> 00:00:02,000\<newline>Hello world'' =
     Inr [\<lparr>idx = PyStr ''1'', start = PyStr ''00:00:01,000'',
           end' = PyStr ''00:00:02,000'', text' = PyStr ''Hello world''\<rparr>]"
  by code_simp

text \<open>
  C8 as stated fails: the line returned for that block does not carry the integer 1
  as its index.
\<close>

theorem parse_single_block_index_not_int:
  "parse ''1\<newline>00:00:01,000 --> 00:00:02,000\<newline>Hello world'' \<noteq>
     Inr [\<lparr>idx = PyInt 1, start = PyStr ''00:00:01,000'',
           end' = PyStr ''00:00:02,000'', text' = PyStr ''Hello world''\<rparr>]"
  by code_simp

text \<open>
  C10. The parser does not validate timecode syntax: the block
  \<open>"1\n,,, --> ,,,\nfoo"\<close> has start and end fields \<open>",,,"\<close>, non-empty strings over
  the characters of the class \<open>[\d+|:|,]\<close> that are not in \<open>HH:MM:SS,mmm\<close> form, and
  the parser accepts it and returns a line that carries both fields verbatim.
\<close>

theorem parse_accepts_malformed_timecodes:
  "parse ''1\<newline>,,, --> ,,,\<newline>foo'' =
     Inr [\<lparr>idx = PyStr ''1'', start = PyStr '',,,'', end' = PyStr '',,,'',
           text' = PyStr ''foo''\<rparr>]
   \<and> '',,,'' \<noteq> [] \<and> list_all timing_class '',,,'' \<and> \<not> hh_mm_ss_mmm '',,,''"
  by code_simp




text \<open>
  C9. A block made of an index line, a timing line and two or more text lines is not
  skipped: the parser returns exactly one line for it, and the text of that line is
  the first text line only; the later text lines are dropped.
\<close>

theorem parse_multiline_block:
  assumes "i \<noteq> []" "list_all is_digit i" "s \<noteq> []" "list_all timing_class s"
    "e \<noteq> []" "list_all timing_class e" "text_line t" "ts \<noteq> []" "list_all text_line ts"
  shows "parse (srt_block i s e (t # ts)) =
           Inr [\<lparr>idx = PyStr i, start = PyStr s, end' = PyStr e, text' = PyStr t\<rparr>]"
proof -
  let ?nl = "[CHR 0x0A]"
  let ?timing = "s @ '' --> '' @ e"
  let ?J = "py_join ?nl ts"
  let ?p = "i @ ?nl @ s @ '' --> '' @ e @ ?nl @ t @ ?nl"
  have t: "t \<noteq> []" "list_all not_newline t"
    using assms(7) by (simp_all add: text_line_def)
  have i: "list_all not_newline i"
    using assms(2) by (rule list_all_imp[rotated]) (rule digit_not_newline)
  have s: "list_all not_newline s"
    using assms(4) by (rule list_all_imp[rotated]) (rule timing_not_newline)
  have e: "list_all not_newline e"
    using assms(6) by (rule list_all_imp[rotated]) (rule timing_not_newline)
  have arrow: "list_all not_newline '' --> ''"
    by (simp add: not_newline_def)
  have ts: "list_all (\<lambda>t. t \<noteq> [] \<and> list_all not_newline t) ts"
    using assms(9) by (rule list_all_imp[rotated]) (simp add: text_line_def)
  have lines: "list_all (\<lambda>t. t \<noteq> [] \<and> list_all not_newline t) (i # ?timing # t # ts)"
    using assms(1,3) i s e arrow t ts by simp
  have free: "nn_free (srt_block i s e (t # ts))"
    unfolding srt_block_def using py_join_lines[OF _ lines] by simp
  have blocks: "py_split [CHR 0x0A, CHR 0x0A] (- 1) (srt_block i s e (t # ts))
                  = Inr [srt_block i s e (t # ts)]"
    by (simp add: py_split_def split_from_nn_free[OF free])
  have shape: "srt_block i s e (t # ts) = ?p @ ?J"
    using assms(8) by (simp add: srt_block_def py_join_Cons)
  from assms(8,9) obtain u where u: "u \<in> set ts" "text_line u"
    by (cases ts) auto
  then obtain x where x: "x \<in> set u" "\<not> is_space x"
    by (auto simp: text_line_def list_all_iff)
  have J: "\<not> list_all is_space ?J"
    using set_py_join[OF u(1), of ?nl] x by (auto simp: list_all_iff)
  have hd: "?p \<noteq> []" "\<not> is_space (hd ?p)"
    using assms(1,2) by (cases i; simp add: digit_not_space)+
  from strip_keeps_head[OF hd J] obtain j' where
    j': "strip (?p @ ?J) = ?p @ j'" "j' \<noteq> []"
    by blast
  have stripped: "strip (srt_block i s e (t # ts)) = i @ ?nl @ s @ '' --> '' @ e @ ?nl @ t @ (?nl @ j')"
    using j'(1) shape by simp
  have m: "match_at pattern (i @ ?nl @ s @ '' --> '' @ e @ ?nl @ t @ (?nl @ j'))
             = Some [(''idx'', i), (''start'', s), (''end'', e), (''text'', t)]"
    by (rule match_at_block[OF assms(1-6) t(2)]) simp
  have nonempty: "strip (srt_block i s e (t # ts)) \<noteq> []"
    unfolding stripped using assms(1) by simp
  have found: "re_search pattern (strip (srt_block i s e (t # ts)))
                 = Some [(''idx'', i), (''start'', s), (''end'', e), (''text'', t)]"
    unfolding stripped by (rule re_search_at_start[OF m])
  have "parse_loop [srt_block i s e (t # ts)] [] =
          Inr [\<lparr>idx = PyStr i, start = PyStr s, end' = PyStr e, text' = PyStr t\<rparr>]"
    using nonempty found by (simp add: Let_def SubtitleMsg_kw_groups)
  then show ?thesis
    by (simp add: parse_def blocks)
qed

text \<open>The same at a block with the two text lines \<open>Hello\<close> and \<open>big world\<close>.\<close>

theorem parse_multiline_block_witness:
  "parse (srt_block ''7'' ''00:00:01,000'' ''00:00:02,000'' [''Hello'', ''big world'']) =
     Inr [\<lparr>idx = PyStr ''7'', start = PyStr ''00:00:01,000'', end' = PyStr ''00:00:02,000'',
           text' = PyStr ''Hello''\<rparr>]
   \<and> srt_block ''7'' ''00:00:01,000'' ''00:00:02,000'' [''Hello'', ''big world'']
       = ''7\<newline>00:00:01,000 --> 00:00:02,000\<newline>Hello\<newline>big world''"
proof -
  have "parse (srt_block ''7'' ''00:00:01,000'' ''00:00:02,000'' (''Hello'' # [''big world''])) =
     Inr [\<lparr>idx = PyStr ''7'', start = PyStr ''00:00:01,000'', end' = PyStr ''00:00:02,000'',
           text' = PyStr ''Hello''\<rparr>]"
    by (rule parse_multiline_block)
       (simp_all add: is_digit_def timing_class_def text_line_def not_newline_def is_space_def)
  then show ?thesis by (simp add: srt_block_def)
qed

section \<open>Properties of the checkpoint scan\<close>

lemma split_from_no_more: "split_from sep 0 cur s = [cur @ s]"
  by (induction s arbitrary: cur) auto

lemma date_of_file_path: "date_of_file (DIR_NAME @ CHR ''/'' # name) = Inr (date_prefix name)"
  by (simp add: date_of_file_def DIR_NAME_def py_split_def py_index_def split_from_no_more
        date_prefix_def)

lemma scan_loop_parsed:
  "list_all (\<lambda>n. \<not> isl (pd ''%Y%m%d_%H%M%S'' (date_prefix n))) ns \<Longrightarrow>
     scan_loop pd (map (\<lambda>name. DIR_NAME @ ''/'' @ name) ns) dates
       = Inr (dates @ map (\<lambda>n. projr (pd ''%Y%m%d_%H%M%S'' (date_prefix n))) ns)"
proof (induction ns arbitrary: dates)
  case Nil
  show ?case by simp
next
  case (Cons n ns)
  then obtain d where d: "pd ''%Y%m%d_%H%M%S'' (date_prefix n) = Inr d"
    by (cases "pd ''%Y%m%d_%H%M%S'' (date_prefix n)") auto
  from Cons.prems have "list_all (\<lambda>n. \<not> isl (pd ''%Y%m%d_%H%M%S'' (date_prefix n))) ns" by simp
  from Cons.IH[of "dates @ [d]"] this show ?case
    by (simp add: date_of_file_path d)
qed

lemma scan_loop_unparsable:
  "list_ex (\<lambda>n. isl (pd ''%Y%m%d_%H%M%S'' (date_prefix n))) ns \<Longrightarrow>
     isl (scan_loop pd (map (\<lambda>name. DIR_NAME @ ''/'' @ name) ns) dates)"
proof (induction ns arbitrary: dates)
  case Nil
  then show ?case by simp
next
  case (Cons n ns)
  show ?case
  proof (cases "pd ''%Y%m%d_%H%M%S'' (date_prefix n)")
    case (Inl e)
    then show ?thesis by (simp add: date_of_file_path)
  next
    case (Inr d)
    with Cons.prems have "list_ex (\<lambda>n. isl (pd ''%Y%m%d_%H%M%S'' (date_prefix n))) ns" by simp
    from Cons.IH[of "dates @ [d]"] this show ?thesis
      by (simp add: date_of_file_path Inr)
  qed
qed

lemma get_extreme_parsed:
  assumes "filter fnmatch_csv names \<noteq> []"
    and "list_all (\<lambda>n. \<not> isl (pd ''%Y%m%d_%H%M%S'' (date_prefix n))) (filter fnmatch_csv names)"
  shows "get_extreme_video_date pd names =
     Inr (Some \<lparr>last' = Max (set (map (\<lambda>n. projr (pd ''%Y%m%d_%H%M%S'' (date_prefix n)))
                                     (filter fnmatch_csv names))),
                oldest = Min (set (map (\<lambda>n. projr (pd ''%Y%m%d_%H%M%S'' (date_prefix n)))
                                     (filter fnmatch_csv names)))\<rparr>)"
proof -
  let ?ds = "map (\<lambda>n. projr (pd ''%Y%m%d_%H%M%S'' (date_prefix n))) (filter fnmatch_csv names)"
  from assms(1) obtain d ds where ds: "?ds = d # ds"
    by (cases "?ds") auto
  have "scan_loop pd (glob_csv names) [] = Inr ?ds"
    unfolding glob_csv_def using scan_loop_parsed[of pd "filter fnmatch_csv names" "[]"] assms(2) by simp
  moreover have "fold max ds d = Max (set (d # ds))" "fold min ds d = Min (set (d # ds))"
    by (simp_all only: Max.set_eq_fold Min.set_eq_fold)
  ultimately show ?thesis
    unfolding get_extreme_video_date_def ds by simp
qed

lemma get_extreme_raises:
  "isl (get_extreme_video_date pd names) \<longleftrightarrow>
     list_ex (\<lambda>n. isl (pd ''%Y%m%d_%H%M%S'' (date_prefix n))) (filter fnmatch_csv names)"
proof (cases "list_ex (\<lambda>n. isl (pd ''%Y%m%d_%H%M%S'' (date_prefix n))) (filter fnmatch_csv names)")
  case True
  from scan_loop_unparsable[of pd "filter fnmatch_csv names" "[]"] True show ?thesis
    by (auto simp: get_extreme_video_date_def glob_csv_def split: sum.splits)
next
  case False
  then have "list_all (\<lambda>n. \<not> isl (pd ''%Y%m%d_%H%M%S'' (date_prefix n))) (filter fnmatch_csv names)"
    by (simp add: list_all_iff list_ex_iff)
  from scan_loop_parsed[of pd "filter fnmatch_csv names" "[]"] this False show ?thesis
    by (auto simp: get_extreme_video_date_def glob_csv_def split: sum.splits list.splits)
qed

lemma get_extreme_absent:
  "filter fnmatch_csv names = [] \<Longrightarrow> get_extreme_video_date pd names = Inr None"
  by (simp add: get_extreme_video_date_def glob_csv_def)

text \<open>
  C7. When the directory holds at least one persisted file (a name matching \<open>*.csv\<close>)
  and the date prefix of every such name parses, the scan returns the greatest of
  the parsed timestamps as \<open>last\<close> and the least as \<open>oldest\<close>, whatever the parser;
  for the files \<open>20180315_120000_abc123.csv\<close> and \<open>20180410_090000_def456.csv\<close> it
  returns oldest 2018-03-15 12:00:00 and last 2018-04-10 09:00:00; and for a
  directory without persisted files it returns absent.
\<close>

theorem checkpoint_scan_min_max:
  "(filter fnmatch_csv names \<noteq> [] \<and>
    list_all (\<lambda>n. \<not> isl (pd ''%Y%m%d_%H%M%S'' (date_prefix n))) (filter fnmatch_csv names) \<longrightarrow>
      get_extreme_video_date pd names =
        Inr (Some \<lparr>last' = Max (set (map (\<lambda>n. projr (pd ''%Y%m%d_%H%M%S'' (date_prefix n)))
                                        (filter fnmatch_csv names))),
                   oldest = Min (set (map (\<lambda>n. projr (pd ''%Y%m%d_%H%M%S'' (date_prefix n)))
                                        (filter fnmatch_csv names)))\<rparr>))
   \<and> get_extreme_video_date to_datetime
        [''20180315_120000_abc123.csv'', ''20180410_090000_def456.csv''] =
        Inr (Some \<lparr>last' = (2018, 4, 10, 9, 0, 0), oldest = (2018, 3, 15, 12, 0, 0)\<rparr>)
   \<and> (filter fnmatch_csv names = [] \<longrightarrow> get_extreme_video_date pd names = Inr None)
   \<and> get_extreme_video_date pd [] = Inr None"
proof -
  have "get_extreme_video_date to_datetime
          [''20180315_120000_abc123.csv'', ''20180410_090000_def456.csv''] =
        Inr (Some \<lparr>last' = (2018, 4, 10, 9, 0, 0), oldest = (2018, 3, 15, 12, 0, 0)\<rparr>)"
    by code_simp
  then show ?thesis
    using get_extreme_parsed[of names pd] get_extreme_absent[of names pd]
      get_extreme_absent[of "[]" pd]
    by simp
qed

text \<open>
  The general part at a directory of three persisted files and one other file, with
  the parser \<open>to_datetime\<close>.
\<close>

theorem checkpoint_scan_min_max_witness:
  "filter fnmatch_csv [''20190124_110800_x_y.csv'', ''notes.txt'', ''20180315_120000_abc123.csv'',
                       ''20180410_090000_def456.csv''] \<noteq> []
   \<and> list_all (\<lambda>n. \<not> isl (to_datetime ''%Y%m%d_%H%M%S'' (date_prefix n)))
        (filter fnmatch_csv [''20190124_110800_x_y.csv'', ''notes.txt'',
                             ''20180315_120000_abc123.csv'', ''20180410_090000_def456.csv''])
   \<and> get_extreme_video_date to_datetime
        [''20190124_110800_x_y.csv'', ''notes.txt'', ''20180315_120000_abc123.csv'',
         ''20180410_090000_def456.csv''] =
        Inr (Some \<lparr>last' = (2019, 1, 24, 11, 8, 0), oldest = (2018, 3, 15, 12, 0, 0)\<rparr>)"
proof -
  let ?names = "[''20190124_110800_x_y.csv'', ''notes.txt'', ''20180315_120000_abc123.csv'',
                 ''20180410_090000_def456.csv'']"
  let ?dates = "map (\<lambda>n. projr (to_datetime ''%Y%m%d_%H%M%S'' (date_prefix n)))
                  (filter fnmatch_csv ?names)"
  have h1: "filter fnmatch_csv ?names \<noteq> []"
    by code_simp
  have h2: "list_all (\<lambda>n. \<not> isl (to_datetime ''%Y%m%d_%H%M%S'' (date_prefix n)))
              (filter fnmatch_csv ?names)"
    by code_simp
  have r: "get_extreme_video_date to_datetime ?names =
             Inr (Some \<lparr>last' = Max (set ?dates), oldest = Min (set ?dates)\<rparr>)"
    using checkpoint_scan_min_max[of ?names to_datetime] h1 h2 by blast
  have m: "Max (set ?dates) = (2019, 1, 24, 11, 8, 0)" "Min (set ?dates) = (2018, 3, 15, 12, 0, 0)"
    by code_simp+
  show ?thesis
    using h1 h2 r unfolding m by blast
qed

text \<open>
  C4 (as amended). The scan has no handling for a file name whose date prefix does
  not parse: it raises exactly when the directory holds a persisted file (a name
  matching \<open>*.csv\<close>) whose prefix the parser rejects, and then no bounds are derived
  at all. Names that do not match \<open>*.csv\<close> are not read.
\<close>

theorem checkpoint_scan_raises_on_unparsable_name:
  "isl (get_extreme_video_date pd names) \<longleftrightarrow>
     list_ex (\<lambda>n. isl (pd ''%Y%m%d_%H%M%S'' (date_prefix n))) (filter fnmatch_csv names)"
  by (rule get_extreme_raises)

text \<open>The same with the parser \<open>to_datetime\<close> and a name whose day is out of range.\<close>

theorem checkpoint_scan_raises_on_unparsable_name_witness:
  "list_ex (\<lambda>n. isl (to_datetime ''%Y%m%d_%H%M%S'' (date_prefix n)))
     (filter fnmatch_csv [''20180410_090000_def456.csv'', ''20180230_120000_abc123.csv''])
   \<and> isl (get_extreme_video_date to_datetime
            [''20180410_090000_def456.csv'', ''20180230_120000_abc123.csv''])"
proof -
  have "list_ex (\<lambda>n. isl (to_datetime ''%Y%m%d_%H%M%S'' (date_prefix n)))
     (filter fnmatch_csv [''20180410_090000_def456.csv'', ''20180230_120000_abc123.csv''])"
    by code_simp
  then show ?thesis
    using checkpoint_scan_raises_on_unparsable_name[of to_datetime
        "[''20180410_090000_def456.csv'', ''20180230_120000_abc123.csv'']"]
    by blast
qed

text \<open>
  C4 as stated fails: with one well-named file and the file \<open>notes.csv\<close> in the
  directory the scan raises \<open>ValueError\<close> instead of deriving the bounds from the
  well-named file.
\<close>

theorem checkpoint_scan_aborts_on_bad_name:
  "get_extreme_video_date to_datetime [''20180315_120000_abc123.csv'', ''notes.csv'']
     = Inl ValueError"
  by code_simp

section \<open>Properties of the crawler\<close>

subsection \<open>One video\<close>

lemma get_subtitles_forbidden:
  "captions_download c cid = Inl (HttpError 403) \<Longrightarrow> get_subtitles c cid = Inr []"
  by (simp add: get_subtitles_def)

lemma get_subtitles_other_status:
  "captions_download c cid = Inl (HttpError status) \<Longrightarrow> status \<noteq> 403 \<Longrightarrow>
     get_subtitles c cid = Inl (HttpError status)"
  by (simp add: get_subtitles_def)

lemma get_asr_caption_id_raises:
  "captions_list c vid = Inl e \<Longrightarrow> get_asr_caption_id c vid = Inl e"
  by (simp add: get_asr_caption_id_def)

lemma process_item_resolve_raises:
  "get_asr_caption_id c (id_videoId item) = Inl e \<Longrightarrow>
     process_item c item st = (Some e, st\<lparr>trace := trace st @ [Captions_list (id_videoId item)]\<rparr>)"
  by (simp add: process_item_def)

lemma process_item_no_track:
  "get_asr_caption_id c (id_videoId item) = Inr None
     \<or> get_asr_caption_id c (id_videoId item) = Inr (Some []) \<Longrightarrow>
     process_item c item st = (None, st\<lparr>trace := trace st @ [Captions_list (id_videoId item)]\<rparr>)"
  by (auto simp: process_item_def)

lemma process_item_download_raises:
  "get_asr_caption_id c (id_videoId item) = Inr (Some cid) \<Longrightarrow> cid \<noteq> [] \<Longrightarrow>
   get_subtitles c cid = Inl e \<Longrightarrow>
     process_item c item st =
       (Some e, st\<lparr>trace := trace st @ [Captions_list (id_videoId item), Captions_download cid]\<rparr>)"
  by (simp add: process_item_def)

lemma process_item_no_lines:
  "get_asr_caption_id c (id_videoId item) = Inr (Some cid) \<Longrightarrow> cid \<noteq> [] \<Longrightarrow>
   get_subtitles c cid = Inr [] \<Longrightarrow>
     process_item c item st =
       (None, st\<lparr>trace := trace st @ [Captions_list (id_videoId item), Captions_download cid]\<rparr>)"
  by (simp add: process_item_def video_rows_def)

lemma process_item_lines:
  "get_asr_caption_id c (id_videoId item) = Inr (Some cid) \<Longrightarrow> cid \<noteq> [] \<Longrightarrow>
   get_subtitles c cid = Inr ls \<Longrightarrow> ls \<noteq> [] \<Longrightarrow>
     process_item c item st =
       (None, st\<lparr>by_title := to_csv (file_name item) (record_table c item) (by_title st),
                  trace := trace st @ [Captions_list (id_videoId item), Captions_download cid,
                                       To_csv (DIR_NAME @ ''/'' @ file_name item)]\<rparr>)"
  by (simp add: process_item_def video_rows_def record_table_def)

lemma map_of_to_csv: "map_of (to_csv name content files) name = Some content"
  by (induction files) auto

lemma has_record_cases:
  "has_record c item \<longleftrightarrow>
     (\<exists>cid ls. get_asr_caption_id c (id_videoId item) = Inr (Some cid) \<and> cid \<noteq> []
               \<and> get_subtitles c cid = Inr ls \<and> ls \<noteq> [])"
proof (cases "get_asr_caption_id c (id_videoId item)")
  case (Inl e)
  then show ?thesis by (simp add: has_record_def)
next
  case (Inr r)
  show ?thesis
  proof (cases r)
    case None
    with Inr show ?thesis by (simp add: has_record_def)
  next
    case (Some cid)
    with Inr show ?thesis
      by (cases "get_subtitles c cid") (simp_all add: has_record_def)
  qed
qed

lemma process_item_without_record:
  assumes "\<not> has_record c item"
  shows "by_title (snd (process_item c item st)) = by_title st
         \<and> \<not> list_ex is_to_csv (new_events st (snd (process_item c item st)))"
proof (cases "get_asr_caption_id c (id_videoId item)")
  case (Inl e)
  then show ?thesis by (simp add: process_item_resolve_raises new_events_def)
next
  case (Inr r)
  show ?thesis
  proof (cases r)
    case None
    with Inr show ?thesis by (simp add: process_item_no_track new_events_def)
  next
    case (Some cid)
    show ?thesis
    proof (cases "cid = []")
      case True
      with Inr Some show ?thesis by (simp add: process_item_no_track new_events_def)
    next
      case False
      show ?thesis
      proof (cases "get_subtitles c cid")
        case (Inl e)
        with Inr Some False show ?thesis
          by (simp add: process_item_download_raises new_events_def)
      next
        case sub: (Inr ls)
        with assms Inr Some False have "ls = []"
          by (auto simp: has_record_cases)
        with sub Inr Some False show ?thesis
          by (simp add: process_item_no_lines new_events_def)
      qed
    qed
  qed
qed

lemma process_item_with_record:
  assumes "has_record c item"
  shows "\<exists>cid. process_item c item st =
       (None, st\<lparr>by_title := to_csv (file_name item) (record_table c item) (by_title st),
                  trace := trace st @ [Captions_list (id_videoId item), Captions_download cid,
                                       To_csv (DIR_NAME @ ''/'' @ file_name item)]\<rparr>)"
  using assms process_item_lines unfolding has_record_cases by blast

subsection \<open>The items of a page\<close>

lemma process_items_append:
  "process_items c (xs @ ys) st =
     (case process_items c xs st of
        (Some e, st') \<Rightarrow> (Some e, st')
      | (None, st') \<Rightarrow> process_items c ys st')"
  by (induction xs arbitrary: st) (auto split: prod.splits option.splits)

lemma process_items_after:
  "process_items c before st = (None, st') \<Longrightarrow>
     process_items c (before @ item # rest) st =
       (case process_item c item st' of
          (Some e, st'') \<Rightarrow> (Some e, st'')
        | (None, st'') \<Rightarrow> process_items c rest st'')"
  by (simp add: process_items_append)

lemma get_search_videos_aborts:
  "window pd st = (None, st1) \<Longrightarrow>
   search_list c (GRAB_AFTER st1) (GRAB_BEFORE st1) page_token = Inr response \<Longrightarrow>
   process_items c (items response)
     (st1\<lparr>trace := trace st1 @ [Search_list (GRAB_AFTER st1) (GRAB_BEFORE st1) page_token]\<rparr>)
     = (Some e, st3) \<Longrightarrow>
   get_search_videos (Suc depth) pd c page_token st = (Some e, st3)"
  by (simp add: Let_def)

subsection \<open>What a run leaves unchanged\<close>

lemma bounds_append: "bounds (xs @ ys) = bounds xs @ bounds ys"
  by (induction xs rule: bounds.induct) auto

lemma new_events_same: "new_events st st = []"
  by (simp add: new_events_def)

lemma new_events_trace: "prefix (trace st) (trace st') \<Longrightarrow> trace st' = trace st @ new_events st st'"
  by (auto simp: new_events_def prefix_def)

lemma new_events_trans:
  "prefix (trace a) (trace b) \<Longrightarrow> prefix (trace b) (trace c) \<Longrightarrow>
     new_events a c = new_events a b @ new_events b c"
  by (auto simp: new_events_def prefix_def)

lemma new_events_appended: "trace st' = trace st @ evs \<Longrightarrow> new_events st st' = evs"
  by (simp add: new_events_def)

lemma process_item_prefix: "prefix (trace st) (trace (snd (process_item c item st)))"
  by (simp add: process_item_def Let_def split: sum.splits option.splits)

lemma process_item_bounds: "bounds (new_events st (snd (process_item c item st))) = []"
  by (simp add: process_item_def Let_def new_events_def split: sum.splits option.splits)

lemma process_item_attrs:
  "get_latest (snd (process_item c item st)) = get_latest st
   \<and> get_after_least (snd (process_item c item st)) = get_after_least st
   \<and> GRAB_BEFORE (snd (process_item c item st)) = GRAB_BEFORE st
   \<and> GRAB_AFTER (snd (process_item c item st)) = GRAB_AFTER st"
  by (simp add: process_item_def Let_def split: sum.splits option.splits)

lemma process_items_step:
  "process_items c (item # rest) st =
     (if fst (process_item c item st) = None
      then process_items c rest (snd (process_item c item st))
      else process_item c item st)"
  by (cases "process_item c item st") (auto split: option.splits)

lemma process_items_prefix: "prefix (trace st) (trace (snd (process_items c its st)))"
proof (induction its arbitrary: st)
  case Nil
  show ?case by simp
next
  case (Cons item its)
  show ?case
    using process_item_prefix[of st c item] Cons.IH[of "snd (process_item c item st)"]
    by (auto simp: process_items_step simp del: process_items.simps intro: prefix_order.trans)
qed

lemma process_items_bounds: "bounds (new_events st (snd (process_items c its st))) = []"
proof (induction its arbitrary: st)
  case Nil
  show ?case by (simp add: new_events_same)
next
  case (Cons item its)
  let ?st' = "snd (process_item c item st)"
  have "new_events st (snd (process_items c its ?st'))
          = new_events st ?st' @ new_events ?st' (snd (process_items c its ?st'))"
    by (rule new_events_trans[OF process_item_prefix process_items_prefix])
  then have "bounds (new_events st (snd (process_items c its ?st'))) = []"
    using process_item_bounds[of st c item] Cons.IH[of ?st'] by (simp add: bounds_append)
  then show ?case
    using process_item_bounds[of st c item]
    by (simp add: process_items_step del: process_items.simps)
qed

lemma process_items_attrs:
  "get_latest (snd (process_items c its st)) = get_latest st
   \<and> get_after_least (snd (process_items c its st)) = get_after_least st
   \<and> GRAB_BEFORE (snd (process_items c its st)) = GRAB_BEFORE st
   \<and> GRAB_AFTER (snd (process_items c its st)) = GRAB_AFTER st"
proof (induction its arbitrary: st)
  case Nil
  show ?case by simp
next
  case (Cons item its)
  show ?case
    using process_item_attrs[of c item st] Cons.IH[of "snd (process_item c item st)"]
    by (simp add: process_items_step del: process_items.simps)
qed

subsection \<open>One call of the crawl\<close>

lemma window_trace: "trace (snd (window pd st)) = trace st"
  by (simp add: window_def window_latest_def window_oldest_def subscript_def
           split: sum.splits option.splits prod.splits)

lemma window_initial_mode:
  "\<not> get_latest st \<Longrightarrow> \<not> get_after_least st \<Longrightarrow> window pd st = (None, st)"
  by (simp add: window_def window_latest_def window_oldest_def)

text \<open>The three ways a call that got its window can end.\<close>

lemma get_search_videos_request_raises:
  "window pd st = (None, st1) \<Longrightarrow>
   search_list c (GRAB_AFTER st1) (GRAB_BEFORE st1) page_token = Inl e \<Longrightarrow>
   get_search_videos (Suc depth) pd c page_token st =
     (Some e, st1\<lparr>trace := trace st1 @ [Search_list (GRAB_AFTER st1) (GRAB_BEFORE st1) page_token]\<rparr>)"
  by simp

lemma get_search_videos_next_page:
  "window pd st = (None, st1) \<Longrightarrow>
   search_list c (GRAB_AFTER st1) (GRAB_BEFORE st1) page_token = Inr response \<Longrightarrow>
   process_items c (items response)
     (st1\<lparr>trace := trace st1 @ [Search_list (GRAB_AFTER st1) (GRAB_BEFORE st1) page_token]\<rparr>)
     = (None, st3) \<Longrightarrow>
   nextPageToken response = Some tok \<Longrightarrow> tok \<noteq> [] \<Longrightarrow>
   get_search_videos (Suc depth) pd c page_token st = get_search_videos depth pd c (Some tok) st3"
  by (simp add: Let_def)

lemma get_search_videos_last_page:
  "window pd st = (None, st1) \<Longrightarrow>
   search_list c (GRAB_AFTER st1) (GRAB_BEFORE st1) page_token = Inr response \<Longrightarrow>
   process_items c (items response)
     (st1\<lparr>trace := trace st1 @ [Search_list (GRAB_AFTER st1) (GRAB_BEFORE st1) page_token]\<rparr>)
     = (r, st3) \<Longrightarrow>
   r \<noteq> None \<or> nextPageToken response = None \<or> nextPageToken response = Some [] \<Longrightarrow>
   get_search_videos (Suc depth) pd c page_token st = (r, st3)"
  by (auto simp: Let_def split: option.splits)

lemma get_search_videos_window_raises:
  "window pd st = (Some e, st1) \<Longrightarrow>
   get_search_videos (Suc depth) pd c page_token st = (Some e, st1)"
  by simp

lemma get_search_videos_prefix:
  "prefix (trace st) (trace (snd (get_search_videos depth pd c page_token st)))"
proof (induction depth arbitrary: st page_token)
  case 0
  show ?case by simp
next
  case (Suc depth)
  obtain w st1 where w: "window pd st = (w, st1)"
    by (cases "window pd st")
  then have t1: "trace st1 = trace st"
    using window_trace[of pd st] by simp
  show ?case
  proof (cases w)
    case (Some e)
    with w t1 show ?thesis by simp
  next
    case None
    let ?req = "Search_list (GRAB_AFTER st1) (GRAB_BEFORE st1) page_token"
    let ?st2 = "st1\<lparr>trace := trace st1 @ [?req]\<rparr>"
    note w' = w[unfolded None]
    show ?thesis
    proof (cases "search_list c (GRAB_AFTER st1) (GRAB_BEFORE st1) page_token")
      case (Inl e)
      show ?thesis
        unfolding get_search_videos_request_raises[OF w' Inl] using t1 by simp
    next
      case (Inr response)
      obtain r st3 where p: "process_items c (items response) ?st2 = (r, st3)"
        by (cases "process_items c (items response) ?st2")
      have "prefix (trace ?st2) (trace st3)"
        using process_items_prefix[of ?st2 c "items response"] p by simp
      then have p3: "prefix (trace st) (trace st3)"
        using t1 by (auto simp: prefix_def)
      show ?thesis
      proof (cases "r = None \<and> (\<exists>tok. nextPageToken response = Some tok \<and> tok \<noteq> [])")
        case True
        then obtain tok where tok: "nextPageToken response = Some tok" "tok \<noteq> []" and r: "r = None"
          by blast
        show ?thesis
          unfolding get_search_videos_next_page[OF w' Inr p[unfolded r] tok]
          using p3 Suc.IH[of st3 "Some tok"] by (rule prefix_order.trans)
      next
        case False
        then have "r \<noteq> None \<or> nextPageToken response = None \<or> nextPageToken response = Some []"
          by (cases "nextPageToken response") auto
        from get_search_videos_last_page[OF w' Inr p this] show ?thesis
          using p3 by simp
      qed
    qed
  qed
qed

lemma first_request:
  assumes w: "window pd st = (None, st1)"
  shows "prefix (trace st @ [Search_list (GRAB_AFTER st1) (GRAB_BEFORE st1) page_token])
           (trace (snd (get_search_videos (Suc depth) pd c page_token st)))"
proof -
  let ?req = "Search_list (GRAB_AFTER st1) (GRAB_BEFORE st1) page_token"
  let ?st2 = "st1\<lparr>trace := trace st1 @ [?req]\<rparr>"
  have t1: "trace st1 = trace st"
    using window_trace[of pd st] w by simp
  show ?thesis
  proof (cases "search_list c (GRAB_AFTER st1) (GRAB_BEFORE st1) page_token")
    case (Inl e)
    show ?thesis
      unfolding get_search_videos_request_raises[OF w Inl] using t1 by simp
  next
    case (Inr response)
    obtain r st3 where p: "process_items c (items response) ?st2 = (r, st3)"
      by (cases "process_items c (items response) ?st2")
    have p3: "prefix (trace st @ [?req]) (trace st3)"
      using process_items_prefix[of ?st2 c "items response"] p t1 by simp
    show ?thesis
    proof (cases "r = None \<and> (\<exists>tok. nextPageToken response = Some tok \<and> tok \<noteq> [])")
      case True
      then obtain tok where tok: "nextPageToken response = Some tok" "tok \<noteq> []" and r: "r = None"
        by blast
      show ?thesis
        unfolding get_search_videos_next_page[OF w Inr p[unfolded r] tok]
        using p3 get_search_videos_prefix[of st3 depth pd c "Some tok"] by (rule prefix_order.trans)
    next
      case False
      then have "r \<noteq> None \<or> nextPageToken response = None \<or> nextPageToken response = Some []"
        by (cases "nextPageToken response") auto
      from get_search_videos_last_page[OF w Inr p this] show ?thesis
        using p3 by simp
    qed
  qed
qed

lemma initial_mode_bounds:
  "\<not> get_latest st \<Longrightarrow> \<not> get_after_least st \<Longrightarrow>
     set (bounds (new_events st (snd (get_search_videos depth pd c page_token st))))
       \<subseteq> {(GRAB_AFTER st, GRAB_BEFORE st)}"
proof (induction depth arbitrary: st page_token)
  case 0
  show ?case by (simp add: new_events_same)
next
  case (Suc depth)
  let ?req = "Search_list (GRAB_AFTER st) (GRAB_BEFORE st) page_token"
  let ?st2 = "st\<lparr>trace := trace st @ [?req]\<rparr>"
  have w: "window pd st = (None, st)"
    using Suc.prems by (rule window_initial_mode)
  show ?case
  proof (cases "search_list c (GRAB_AFTER st) (GRAB_BEFORE st) page_token")
    case (Inl e)
    show ?thesis
      unfolding get_search_videos_request_raises[OF w Inl] by (simp add: new_events_def)
  next
    case (Inr response)
    obtain r st3 where p: "process_items c (items response) ?st2 = (r, st3)"
      by (cases "process_items c (items response) ?st2")
    have st3: "st3 = snd (process_items c (items response) ?st2)"
      using p by simp
    have p2: "prefix (trace st) (trace ?st2)" by simp
    have p3: "prefix (trace ?st2) (trace st3)"
      unfolding st3 by (rule process_items_prefix)
    have "new_events st st3 = new_events st ?st2 @ new_events ?st2 st3"
      by (rule new_events_trans[OF p2 p3])
    moreover have "new_events st ?st2 = [?req]" by (simp add: new_events_def)
    moreover have "bounds (new_events ?st2 st3) = []"
      unfolding st3 by (rule process_items_bounds)
    ultimately have here: "bounds (new_events st st3) = [(GRAB_AFTER st, GRAB_BEFORE st)]"
      by (simp add: bounds_append)
    have attrs: "\<not> get_latest st3" "\<not> get_after_least st3" "GRAB_AFTER st3 = GRAB_AFTER st"
      "GRAB_BEFORE st3 = GRAB_BEFORE st"
      unfolding st3 using process_items_attrs[of c "items response" ?st2] Suc.prems by simp_all
    show ?thesis
    proof (cases "r = None \<and> (\<exists>tok. nextPageToken response = Some tok \<and> tok \<noteq> [])")
      case True
      then obtain tok where tok: "nextPageToken response = Some tok" "tok \<noteq> []" and r: "r = None"
        by blast
      let ?end = "snd (get_search_videos depth pd c (Some tok) st3)"
      have "new_events st ?end = new_events st st3 @ new_events st3 ?end"
        using p2 p3 by (intro new_events_trans get_search_videos_prefix) (auto simp: prefix_def)
      moreover have "set (bounds (new_events st3 ?end)) \<subseteq> {(GRAB_AFTER st, GRAB_BEFORE st)}"
        using Suc.IH[OF attrs(1,2), of "Some tok"] attrs(3,4) by simp
      ultimately show ?thesis
        unfolding get_search_videos_next_page[OF w Inr p[unfolded r] tok]
        using here by (simp add: bounds_append)
    next
      case False
      then have "r \<noteq> None \<or> nextPageToken response = None \<or> nextPageToken response = Some []"
        by (cases "nextPageToken response") auto
      from get_search_videos_last_page[OF w Inr p this] show ?thesis
        using here by simp
    qed
  qed
qed

subsection \<open>Claims about the crawl\<close>

text \<open>
  C5. A video of a page gets a persisted file if and only if the resolver returns the
  identifier of an ASR track and the subtitle parser returns at least one line. When
  both hold, processing the video raises nothing and writes the file
  \<open>{uploaded}_{video_id}.csv\<close> holding the table of its lines, and the write is the
  last thing done for the video: the remaining videos of the page are processed from
  the state that already holds the file, and all their events come after the write.
  When either is missing, the directory is left as it was and no file is written.
\<close>

theorem record_written_iff_track_and_lines:
  "(has_record c item \<longleftrightarrow>
      (\<exists>cid ls. get_asr_caption_id c (id_videoId item) = Inr (Some cid) \<and> cid \<noteq> []
                \<and> get_subtitles c cid = Inr ls \<and> ls \<noteq> []))
   \<and> (has_record c item \<longrightarrow>
        fst (process_item c item st) = None
        \<and> by_title (snd (process_item c item st))
            = to_csv (file_name item) (record_table c item) (by_title st)
        \<and> map_of (by_title (snd (process_item c item st))) (file_name item)
            = Some (record_table c item)
        \<and> last (trace (snd (process_item c item st))) = To_csv (DIR_NAME @ ''/'' @ file_name item)
        \<and> process_items c (item # rest) st = process_items c rest (snd (process_item c item st))
        \<and> prefix (trace (snd (process_item c item st)))
                  (trace (snd (process_items c (item # rest) st))))
   \<and> (\<not> has_record c item \<longrightarrow>
        by_title (snd (process_item c item st)) = by_title st
        \<and> \<not> list_ex is_to_csv (new_events st (snd (process_item c item st))))"
proof (intro conjI impI)
  show "has_record c item \<longleftrightarrow>
      (\<exists>cid ls. get_asr_caption_id c (id_videoId item) = Inr (Some cid) \<and> cid \<noteq> []
                \<and> get_subtitles c cid = Inr ls \<and> ls \<noteq> [])"
    by (rule has_record_cases)
next
  assume "\<not> has_record c item"
  then show "by_title (snd (process_item c item st)) = by_title st"
    and "\<not> list_ex is_to_csv (new_events st (snd (process_item c item st)))"
    using process_item_without_record[of c item st] by simp_all
next
  assume h: "has_record c item"
  from process_item_with_record[OF h, of st] obtain cid where
    p: "process_item c item st =
       (None, st\<lparr>by_title := to_csv (file_name item) (record_table c item) (by_title st),
                  trace := trace st @ [Captions_list (id_videoId item), Captions_download cid,
                                       To_csv (DIR_NAME @ ''/'' @ file_name item)]\<rparr>)"
    by blast
  show "fst (process_item c item st) = None"
    by (simp add: p)
  show "by_title (snd (process_item c item st))
            = to_csv (file_name item) (record_table c item) (by_title st)"
    by (simp add: p)
  show "map_of (by_title (snd (process_item c item st))) (file_name item)
            = Some (record_table c item)"
    by (simp add: p map_of_to_csv)
  show "last (trace (snd (process_item c item st))) = To_csv (DIR_NAME @ ''/'' @ file_name item)"
    by (simp add: p)
  show step: "process_items c (item # rest) st = process_items c rest (snd (process_item c item st))"
    by (simp add: p)
  show "prefix (trace (snd (process_item c item st)))
               (trace (snd (process_items c (item # rest) st)))"
    unfolding step by (rule process_items_prefix)
qed

text \<open>
  On the example channel the video \<open>v1\<close> has a record; when the download of its
  track is forbidden it has none.
\<close>

theorem record_written_iff_track_and_lines_witness:
  "has_record ex_client ex_v1
   \<and> by_title (snd (process_item ex_client ex_v1 (initial_state False False [])))
      = [(''20180501_000000_v1.csv'', [(''v1'', ''First'', PyStr ''00:00:01,000'', PyStr ''Hello'')])]
   \<and> \<not> has_record failing_download_client ex_v1
   \<and> by_title (snd (process_item failing_download_client ex_v1 (initial_state False False [])))
      = []"
proof -
  have a: "has_record ex_client ex_v1"
    by code_simp
  have b: "\<not> has_record failing_download_client ex_v1"
    by code_simp
  have t: "to_csv (file_name ex_v1) (record_table ex_client ex_v1)
             (by_title (initial_state False False []))
             = [(''20180501_000000_v1.csv'',
                 [(''v1'', ''First'', PyStr ''00:00:01,000'', PyStr ''Hello'')])]"
    by code_simp
  have e: "by_title (initial_state False False []) = []"
    by (simp add: initial_state_def)
  show ?thesis
    using record_written_iff_track_and_lines[of ex_client ex_v1 "initial_state False False []" "[]"]
      record_written_iff_track_and_lines[of failing_download_client ex_v1
        "initial_state False False []" "[]"]
      a b t e
    by simp
qed

text \<open>
  C1 (as amended). In a page whose earlier videos were processed without an error: a
  forbidden (status 403) error raised by the download of the caption track of a video
  is absorbed, the video gets no record and the page goes on with the next video; an
  error of any other status raised by the download leaves the call and ends the run;
  and an error raised while the caption track is resolved, forbidden included, leaves
  the call and ends the run as well, since only the download is guarded.
\<close>

theorem forbidden_absorbed_on_download_only:
  assumes "window pd st = (None, st_w)"
    and "search_list c (GRAB_AFTER st_w) (GRAB_BEFORE st_w) page_token = Inr response"
    and "items response = before @ item # rest"
    and "process_items c before
           (st_w\<lparr>trace := trace st_w @ [Search_list (GRAB_AFTER st_w) (GRAB_BEFORE st_w) page_token]\<rparr>)
           = (None, st_b)"
  shows "(get_asr_caption_id c (id_videoId item) = Inr (Some cid) \<and> cid \<noteq> []
          \<and> captions_download c cid = Inl (HttpError 403) \<longrightarrow>
            process_items c (items response)
              (st_w\<lparr>trace := trace st_w @ [Search_list (GRAB_AFTER st_w) (GRAB_BEFORE st_w) page_token]\<rparr>)
            = process_items c rest
                (st_b\<lparr>trace := trace st_b @ [Captions_list (id_videoId item), Captions_download cid]\<rparr>))
       \<and> (get_asr_caption_id c (id_videoId item) = Inr (Some cid) \<and> cid \<noteq> []
          \<and> captions_download c cid = Inl (HttpError status) \<and> status \<noteq> 403 \<longrightarrow>
            get_search_videos (Suc depth) pd c page_token st
            = (Some (HttpError status),
               st_b\<lparr>trace := trace st_b @ [Captions_list (id_videoId item), Captions_download cid]\<rparr>))
       \<and> (captions_list c (id_videoId item) = Inl (HttpError status) \<longrightarrow>
            get_search_videos (Suc depth) pd c page_token st
            = (Some (HttpError status),
               st_b\<lparr>trace := trace st_b @ [Captions_list (id_videoId item)]\<rparr>))"
proof (intro conjI impI)
  let ?st_req = "st_w\<lparr>trace := trace st_w @ [Search_list (GRAB_AFTER st_w) (GRAB_BEFORE st_w) page_token]\<rparr>"
  note page = process_items_after[OF assms(4), of item rest, folded assms(3)]
  {
    assume a: "get_asr_caption_id c (id_videoId item) = Inr (Some cid) \<and> cid \<noteq> []
          \<and> captions_download c cid = Inl (HttpError 403)"
    then have "get_subtitles c cid = Inr []"
      by (simp add: get_subtitles_forbidden)
    with a have "process_item c item st_b =
       (None, st_b\<lparr>trace := trace st_b @ [Captions_list (id_videoId item), Captions_download cid]\<rparr>)"
      by (simp add: process_item_no_lines)
    then show "process_items c (items response) ?st_req
            = process_items c rest
                (st_b\<lparr>trace := trace st_b @ [Captions_list (id_videoId item), Captions_download cid]\<rparr>)"
      by (simp add: page)
  }
  {
    assume a: "get_asr_caption_id c (id_videoId item) = Inr (Some cid) \<and> cid \<noteq> []
          \<and> captions_download c cid = Inl (HttpError status) \<and> status \<noteq> 403"
    then have "get_subtitles c cid = Inl (HttpError status)"
      by (simp add: get_subtitles_other_status)
    with a have "process_item c item st_b =
       (Some (HttpError status),
        st_b\<lparr>trace := trace st_b @ [Captions_list (id_videoId item), Captions_download cid]\<rparr>)"
      by (simp add: process_item_download_raises)
    then have "process_items c (items response) ?st_req =
       (Some (HttpError status),
        st_b\<lparr>trace := trace st_b @ [Captions_list (id_videoId item), Captions_download cid]\<rparr>)"
      by (simp add: page)
    then show "get_search_videos (Suc depth) pd c page_token st
            = (Some (HttpError status),
               st_b\<lparr>trace := trace st_b @ [Captions_list (id_videoId item), Captions_download cid]\<rparr>)"
      by (rule get_search_videos_aborts[OF assms(1,2)])
  }
  {
    assume a: "captions_list c (id_videoId item) = Inl (HttpError status)"
    then have "get_asr_caption_id c (id_videoId item) = Inl (HttpError status)"
      by (rule get_asr_caption_id_raises)
    then have "process_item c item st_b =
       (Some (HttpError status), st_b\<lparr>trace := trace st_b @ [Captions_list (id_videoId item)]\<rparr>)"
      by (rule process_item_resolve_raises)
    then have "process_items c (items response) ?st_req =
       (Some (HttpError status), st_b\<lparr>trace := trace st_b @ [Captions_list (id_videoId item)]\<rparr>)"
      by (simp add: page)
    then show "get_search_videos (Suc depth) pd c page_token st
            = (Some (HttpError status),
               st_b\<lparr>trace := trace st_b @ [Captions_list (id_videoId item)]\<rparr>)"
      by (rule get_search_videos_aborts[OF assms(1,2)])
  }
qed

text \<open>
  On the example channel in initial mode: the forbidden download of the track of \<open>v1\<close>
  is absorbed and the page goes on with \<open>v2\<close>; the download of the track of \<open>v2\<close>
  fails with status 500 and ends the run; and when listing the tracks of \<open>v1\<close> is
  forbidden, that ends the run.
\<close>

theorem forbidden_absorbed_on_download_only_witness:
  "process_items failing_download_client [ex_v1, ex_v2]
     \<lparr>get_latest = False, get_after_least = False, GRAB_BEFORE = Some ''2018-10-20T00:00:00Z'',
      GRAB_AFTER = Some ''2018-01-01T00:00:00Z'', by_title = [],
      trace = [Search_list (Some ''2018-01-01T00:00:00Z'') (Some ''2018-10-20T00:00:00Z'') None]\<rparr>
   = process_items failing_download_client [ex_v2]
     \<lparr>get_latest = False, get_after_least = False, GRAB_BEFORE = Some ''2018-10-20T00:00:00Z'',
      GRAB_AFTER = Some ''2018-01-01T00:00:00Z'', by_title = [],
      trace = [Search_list (Some ''2018-01-01T00:00:00Z'') (Some ''2018-10-20T00:00:00Z'') None,
               Captions_list ''v1'', Captions_download ''c_v1'']\<rparr>
   \<and> get_search_videos (Suc 4) to_datetime failing_download_client None
       (initial_state False False [])
     = (Some (HttpError 500),
        \<lparr>get_latest = False, get_after_least = False, GRAB_BEFORE = Some ''2018-10-20T00:00:00Z'',
         GRAB_AFTER = Some ''2018-01-01T00:00:00Z'', by_title = [],
         trace = [Search_list (Some ''2018-01-01T00:00:00Z'') (Some ''2018-10-20T00:00:00Z'') None,
                  Captions_list ''v1'', Captions_download ''c_v1'',
                  Captions_list ''v2'', Captions_download ''c_v2'']\<rparr>)
   \<and> get_search_videos (Suc 4) to_datetime forbidden_list_client None
       (initial_state False False [])
     = (Some (HttpError 403),
        \<lparr>get_latest = False, get_after_least = False, GRAB_BEFORE = Some ''2018-10-20T00:00:00Z'',
         GRAB_AFTER = Some ''2018-01-01T00:00:00Z'', by_title = [],
         trace = [Search_list (Some ''2018-01-01T00:00:00Z'') (Some ''2018-10-20T00:00:00Z'') None,
                  Captions_list ''v1'']\<rparr>)"
proof -
  let ?I = "initial_state False False []"
  let ?req = "Search_list (GRAB_AFTER ?I) (GRAB_BEFORE ?I) None"
  let ?R = "?I\<lparr>trace := trace ?I @ [?req]\<rparr>"
  let ?page = "\<lparr>items = [ex_v1, ex_v2], nextPageToken = Some ''P2''\<rparr>"
  let ?B = "\<lparr>get_latest = False, get_after_least = False,
             GRAB_BEFORE = Some ''2018-10-20T00:00:00Z'', GRAB_AFTER = Some ''2018-01-01T00:00:00Z'',
             by_title = [],
             trace = [Search_list (Some ''2018-01-01T00:00:00Z'') (Some ''2018-10-20T00:00:00Z'') None,
                      Captions_list ''v1'', Captions_download ''c_v1'']\<rparr>"
  have w: "window to_datetime ?I = (None, ?I)"
    by (simp add: window_initial_mode initial_state_def)
  have s1: "search_list failing_download_client (GRAB_AFTER ?I) (GRAB_BEFORE ?I) None = Inr ?page"
    by (simp add: failing_download_client_def ex_search_def)
  have s2: "search_list forbidden_list_client (GRAB_AFTER ?I) (GRAB_BEFORE ?I) None = Inr ?page"
    by (simp add: forbidden_list_client_def ex_search_def)
  have i1: "items ?page = [] @ ex_v1 # [ex_v2]" and i2: "items ?page = [ex_v1] @ ex_v2 # []"
    by simp_all
  have b1: "process_items failing_download_client [] ?R = (None, ?R)"
    and b3: "process_items forbidden_list_client [] ?R = (None, ?R)"
    by simp_all
  have b2: "process_items failing_download_client [ex_v1] ?R = (None, ?B)"
    by code_simp
  have r1: "get_asr_caption_id failing_download_client (id_videoId ex_v1) = Inr (Some ''c_v1'')"
    and r2: "get_asr_caption_id failing_download_client (id_videoId ex_v2) = Inr (Some ''c_v2'')"
    by code_simp+
  have d1: "captions_download failing_download_client ''c_v1'' = Inl (HttpError 403)"
    and d2: "captions_download failing_download_client ''c_v2'' = Inl (HttpError 500)"
    and l3: "captions_list forbidden_list_client (id_videoId ex_v1) = Inl (HttpError 403)"
    by code_simp+
  have c1: "process_items failing_download_client (items ?page) ?R
              = process_items failing_download_client [ex_v2]
                  (?R\<lparr>trace := trace ?R @ [Captions_list (id_videoId ex_v1), Captions_download ''c_v1'']\<rparr>)"
    using forbidden_absorbed_on_download_only[OF w s1 i1 b1, of "''c_v1''" 500 4] r1 d1 by simp
  have c2: "get_search_videos (Suc 4) to_datetime failing_download_client None ?I
              = (Some (HttpError 500),
                 ?B\<lparr>trace := trace ?B @ [Captions_list (id_videoId ex_v2), Captions_download ''c_v2'']\<rparr>)"
    using forbidden_absorbed_on_download_only[OF w s1 i2 b2, of "''c_v2''" 500 4] r2 d2 by simp
  have c3: "get_search_videos (Suc 4) to_datetime forbidden_list_client None ?I
              = (Some (HttpError 403), ?R\<lparr>trace := trace ?R @ [Captions_list (id_videoId ex_v1)]\<rparr>)"
    using forbidden_absorbed_on_download_only[OF w s2 i1 b3, of "''c_v1''" 403 4] l3 by simp
  show ?thesis
    using c1 c2 c3 by (simp add: initial_state_def ex_v1_def ex_v2_def)
qed

text \<open>
  C1 as stated fails: when listing the caption tracks of the first video of a page is
  forbidden, the error is not absorbed; the run ends with it and the second video of
  the page is never looked at.
\<close>

theorem forbidden_while_resolving_ends_run:
  "VideoGetter 5 to_datetime forbidden_list_client False False []
     = (Some (HttpError 403),
        \<lparr>get_latest = False, get_after_least = False, GRAB_BEFORE = Some ''2018-10-20T00:00:00Z'',
         GRAB_AFTER = Some ''2018-01-01T00:00:00Z'', by_title = [],
         trace = [Search_list (Some ''2018-01-01T00:00:00Z'') (Some ''2018-10-20T00:00:00Z'') None,
                  Captions_list ''v1'']\<rparr>)"
  by code_simp

text \<open>
  C3 (as amended). When the directory holds no persisted file the scan yields absent.
  In initial mode the scan is not consulted: the crawl sends its first page request
  with the static default bounds and every page request of the run carries them. In
  backfill or catch-up mode there is no fall-back to the defaults: the absent result
  is subscripted, which raises \<open>TypeError\<close>, and the run ends before any request.
\<close>

theorem empty_directory_by_mode:
  assumes "filter fnmatch_csv (map fst files) = []"
  shows "get_extreme_video_date pd (map fst files) = Inr None
    \<and> (after_least \<or> latest \<longrightarrow>
         VideoGetter (Suc depth) pd c after_least latest files
           = (Some TypeError, initial_state after_least latest files))
    \<and> (\<not> after_least \<and> \<not> latest \<longrightarrow>
         prefix [Search_list (Some ''2018-01-01T00:00:00Z'') (Some ''2018-10-20T00:00:00Z'') None]
                (trace (snd (VideoGetter (Suc depth) pd c after_least latest files)))
         \<and> set (bounds (trace (snd (VideoGetter (Suc depth) pd c after_least latest files))))
             = {(Some ''2018-01-01T00:00:00Z'', Some ''2018-10-20T00:00:00Z'')})"
proof (intro conjI impI)
  let ?I = "initial_state after_least latest files"
  show absent: "get_extreme_video_date pd (map fst files) = Inr None"
    using assms by (rule get_extreme_absent)
  {
    assume "after_least \<or> latest"
    then have "window pd ?I = (Some TypeError, ?I)"
      using absent
      by (auto simp: window_def window_latest_def window_oldest_def subscript_def initial_state_def)
    then show "VideoGetter (Suc depth) pd c after_least latest files = (Some TypeError, ?I)"
      unfolding VideoGetter_def by (rule get_search_videos_window_raises)
  }
  {
    assume m: "\<not> after_least \<and> \<not> latest"
    then have flags: "\<not> get_latest ?I" "\<not> get_after_least ?I"
      by (simp_all add: initial_state_def)
    have w: "window pd ?I = (None, ?I)"
      using flags by (rule window_initial_mode)
    have t: "trace ?I = []" "GRAB_AFTER ?I = Some ''2018-01-01T00:00:00Z''"
      "GRAB_BEFORE ?I = Some ''2018-10-20T00:00:00Z''"
      by (simp_all add: initial_state_def)
    let ?end = "snd (VideoGetter (Suc depth) pd c after_least latest files)"
    show first: "prefix [Search_list (Some ''2018-01-01T00:00:00Z'') (Some ''2018-10-20T00:00:00Z'') None]
                   (trace ?end)"
      using first_request[OF w, of None depth c] unfolding VideoGetter_def t by simp
    have "new_events ?I ?end = trace ?end"
      by (simp add: new_events_def t)
    then have sub: "set (bounds (trace ?end))
                      \<subseteq> {(Some ''2018-01-01T00:00:00Z'', Some ''2018-10-20T00:00:00Z'')}"
      using initial_mode_bounds[OF flags, of "Suc depth" pd c None]
      unfolding VideoGetter_def t by simp
    from first obtain evs where
      "trace ?end = Search_list (Some ''2018-01-01T00:00:00Z'') (Some ''2018-10-20T00:00:00Z'') None # evs"
      by (auto simp: prefix_def)
    then have "(Some ''2018-01-01T00:00:00Z'', Some ''2018-10-20T00:00:00Z'') \<in> set (bounds (trace ?end))"
      by simp
    with sub show "set (bounds (trace ?end))
                     = {(Some ''2018-01-01T00:00:00Z'', Some ''2018-10-20T00:00:00Z'')}"
      by blast
  }
qed

text \<open>
  With an empty directory on the example channel: backfill mode ends with \<open>TypeError\<close>,
  initial mode sends its requests with the default bounds.
\<close>

theorem empty_directory_by_mode_witness:
  "filter fnmatch_csv (map fst ([] :: (string \<times> csv) list)) = []
   \<and> VideoGetter (Suc 4) to_datetime ex_client True False []
       = (Some TypeError, initial_state True False [])
   \<and> set (bounds (trace (snd (VideoGetter (Suc 4) to_datetime ex_client False False []))))
       = {(Some ''2018-01-01T00:00:00Z'', Some ''2018-10-20T00:00:00Z'')}"
  using empty_directory_by_mode[of "[]" to_datetime True False 4 ex_client]
    empty_directory_by_mode[of "[]" to_datetime False False 4 ex_client]
  by simp

text \<open>
  C3 as stated fails: in backfill mode with an empty directory the crawler does not
  proceed with the default window; the run ends with \<open>TypeError\<close> and no request sent.
\<close>

theorem backfill_on_empty_directory_fails:
  "VideoGetter 5 to_datetime ex_client True False []
     = (Some TypeError,
        \<lparr>get_latest = False, get_after_least = True, GRAB_BEFORE = Some ''2018-10-20T00:00:00Z'',
         GRAB_AFTER = Some ''2018-01-01T00:00:00Z'', by_title = [], trace = []\<rparr>)"
  by code_simp

subsection \<open>Replaying the events of a run\<close>
















end
